theory Spec2Isabelle
  imports Main
begin

section \<open>Strings and the two regular expressions of the component\<close>

text \<open>
  A JavaScript string is modelled as a \<^typ>\<open>string\<close> holding its UTF-8 bytes. Every
  comparison the component makes is against ASCII text (\<open>#\<close>, \<open><svg\<close>, \<open>url(\<close>, \<open>,\<close>),
  and an ASCII byte never occurs inside a multi-byte sequence, so searching bytes and
  searching code units find the same places. An optional string property
  (\<open>baseURL\<close>, \<open>title\<close>, \<open>description\<close>, \<open>uniqueHash\<close>) is a string whose empty value
  stands for both \<open>undefined\<close> and \<open>''\<close>: the source only ever tests such a property
  for truthiness or defaults it to \<open>''\<close>.
\<close>

definition startsWith :: "string \<Rightarrow> string \<Rightarrow> bool" where
  "startsWith s p = (take (length p) s = p)"

definition endsWith :: "string \<Rightarrow> string \<Rightarrow> bool" where
  "endsWith s p = (length p \<le> length s \<and> drop (length s - length p) s = p)"

text \<open>
  \<open>splitFirst p s\<close> finds the first occurrence of \<open>p\<close> in \<open>s\<close> and returns the text
  before and after it; \<open>s.indexOf(p) >= 0\<close> is \<open>splitFirst p s \<noteq> None\<close>.
\<close>

fun splitFirst :: "string \<Rightarrow> string \<Rightarrow> (string \<times> string) option" where
  "splitFirst p [] = (if p = [] then Some ([], []) else None)"
| "splitFirst p (x # xs) =
     (if startsWith (x # xs) p then Some ([], drop (length p) (x # xs))
      else (case splitFirst p xs of
              None \<Rightarrow> None
            | Some (b, a) \<Rightarrow> Some (x # b, a)))"

definition js_includes :: "string \<Rightarrow> string \<Rightarrow> bool" where
  "js_includes s p = (splitFirst p s \<noteq> None)"

text \<open>
  The dot of a JavaScript regular expression matches every character except the line
  terminators: line feed, carriage return, U+2028 and U+2029 (in UTF-8 the bytes
  \<open>E2 80 A8\<close> and \<open>E2 80 A9\<close>).
\<close>

fun atLineTerminator :: "string \<Rightarrow> bool" where
  "atLineTerminator [] = False"
| "atLineTerminator (x # xs) =
     (x = CHR 0x0A \<or> x = CHR 0x0D \<or>
      (x = CHR 0xE2 \<and> (startsWith xs [CHR 0x80, CHR 0xA8] \<or> startsWith xs [CHR 0x80, CHR 0xA9])))"

text \<open>\<open>(.*)\<close>: the longest run of characters that are not line terminators.\<close>

fun dotStar :: "string \<Rightarrow> string" where
  "dotStar [] = []"
| "dotStar (x # xs) = (if atLineTerminator (x # xs) then [] else x # dotStar xs)"

text \<open>
  \<open>(.*?)\)\<close>: the shortest run of non-terminators that is followed by a closing
  parenthesis; the result is the run and the text after the parenthesis.
\<close>

fun lazyUntilParen :: "string \<Rightarrow> (string \<times> string) option" where
  "lazyUntilParen [] = None"
| "lazyUntilParen (x # xs) =
     (if x = CHR '')'' then Some ([], xs)
      else if atLineTerminator (x # xs) then None
      else (case lazyUntilParen xs of
              None \<Rightarrow> None
            | Some (m, r) \<Rightarrow> Some (x # m, r)))"

text \<open>
  \<open>value.match(/url\((.*?)\)/)\<close>: the leftmost position where \<open>url(\<close> starts a match.
  The result is the text before the match, the group \<open>match[1]\<close> and the text after the
  match; \<open>match[0]\<close> is \<open>url(\<close>, the group and \<open>)\<close>.
\<close>

fun matchUrl :: "string \<Rightarrow> (string \<times> string \<times> string) option" where
  "matchUrl [] = None"
| "matchUrl (x # xs) =
     (case (if startsWith (x # xs) ''url('' then lazyUntilParen (drop 4 (x # xs)) else None) of
        Some (m, r) \<Rightarrow> Some ([], m, r)
      | None \<Rightarrow> (case matchUrl xs of
                   None \<Rightarrow> None
                 | Some (b, m, r) \<Rightarrow> Some (x # b, m, r)))"

text \<open>
  \<open>String.prototype.replace\<close> with a string pattern replaces the first occurrence, and
  expands the dollar patterns of the replacement text: \<open>$$\<close> is a dollar sign, \<open>$&\<close> the
  matched text, \<open>$`\<close> the text before the match and \<open>$'\<close> the text after it. A string
  pattern has no capture groups, so \<open>$1\<close> and the like stay as they are.
\<close>

fun getSubstitution :: "string \<Rightarrow> string \<Rightarrow> string \<Rightarrow> string \<Rightarrow> string" where
  "getSubstitution matched pre post [] = []"
| "getSubstitution matched pre post [c] = [c]"
| "getSubstitution matched pre post (c # d # r) =
     (if c = CHR ''$'' \<and> d = CHR ''$'' then CHR ''$'' # getSubstitution matched pre post r
      else if c = CHR ''$'' \<and> d = CHR ''&'' then matched @ getSubstitution matched pre post r
      else if c = CHR ''$'' \<and> d = CHR 0x60 then pre @ getSubstitution matched pre post r
      else if c = CHR ''$'' \<and> d = CHR 0x27 then post @ getSubstitution matched pre post r
      else c # getSubstitution matched pre post (d # r))"

definition js_replace :: "string \<Rightarrow> string \<Rightarrow> string \<Rightarrow> string" where
  "js_replace s pat repl =
     (case splitFirst pat s of
        None \<Rightarrow> s
      | Some (pre, post) \<Rightarrow> pre @ getSubstitution pat pre post repl @ post)"

text \<open>
  \<open>src.match(/data:image\/svg[^,]*?(;base64)?,(.*)/)\<close>. The expression is not anchored,
  so it matches at the first occurrence of \<open>data:image/svg\<close> that a comma follows (if no
  comma follows the first occurrence, none follows a later one). The class \<open>[^,]\<close>
  cannot cross a comma, so the comma matched is the first one after that occurrence;
  the lazy star stops as early as possible, so group 1 takes part exactly when the text
  before that comma ends with \<open>;base64\<close>. Group 2 is the text after the comma up to the
  first line terminator. The result is \<open>(dataURI[1] is defined, dataURI[2])\<close>.
\<close>

definition matchDataURI :: "string \<Rightarrow> (bool \<times> string) option" where
  "matchDataURI s =
     (case splitFirst ''data:image/svg'' s of
        None \<Rightarrow> None
      | Some (pre, rest) \<Rightarrow>
          (case dropWhile (\<lambda>c. c \<noteq> CHR '','') rest of
             [] \<Rightarrow> None
           | comma # payload \<Rightarrow>
               Some (endsWith (takeWhile (\<lambda>c. c \<noteq> CHR '','') rest) '';base64'', dotStar payload)))"

section \<open>The document tree and the SVG transformer\<close>

text \<open>
  A DOM node is an element (tag name, attributes in document order as name and value,
  child nodes) or a text node. \<open>children\<close> of the DOM are the element children.
\<close>

datatype node = Element string "(string \<times> string) list" "node list" | Text string

definition replaceableAttributes :: "string list" where
  "replaceableAttributes = [''id'', ''href'', ''xlink:href'', ''xlink:role'', ''xlink:arcrole'']"

definition linkAttributes :: "string list" where
  "linkAttributes = [''href'', ''xlink:href'']"

definition isDataValue :: "string \<Rightarrow> string \<Rightarrow> bool" where
  "isDataValue name v =
     (name \<in> set linkAttributes \<and> (if v \<noteq> [] then \<not> js_includes v ''#'' else False))"

text \<open>The first pass over the attributes of one element: the \<open>url(...)\<close> rewrite.\<close>

definition rewriteUrl :: "string \<Rightarrow> string \<Rightarrow> string \<Rightarrow> string" where
  "rewriteUrl base h v =
     (case matchUrl v of
        None \<Rightarrow> v
      | Some (pre, m, post) \<Rightarrow>
          (if m \<noteq> [] then js_replace v (''url('' @ m @ '')'') (''url('' @ base @ m @ ''__'' @ h @ '')'')
           else v))"

text \<open>
  The second pass, for one name \<open>r\<close> of \<open>replaceableAttributes\<close>: \<open>find\<close> returns the
  first attribute of that name, and its value gets the suffix unless it is a data value.
\<close>

fun suffixAttribute :: "string \<Rightarrow> string \<Rightarrow> (string \<times> string) list \<Rightarrow> (string \<times> string) list" where
  "suffixAttribute h r [] = []"
| "suffixAttribute h r ((n, v) # as) =
     (if n = r then (if \<not> isDataValue r v then (n, v @ ''__'' @ h) else (n, v)) # as
      else (n, v) # suffixAttribute h r as)"

definition updateAttributes :: "string \<Rightarrow> string \<Rightarrow> (string \<times> string) list \<Rightarrow> (string \<times> string) list" where
  "updateAttributes base h as =
     foldl (\<lambda>acc r. suffixAttribute h r acc) (map (\<lambda>(n, v). (n, rewriteUrl base h v)) as)
       replaceableAttributes"

text \<open>
  \<open>updateSVGAttributes\<close> takes the properties it reads (\<open>uniquifyIDs\<close>, \<open>baseURL\<close>) and
  the instance's \<open>hash\<close>. It rewrites the element children of the node it is given, not
  the node itself, and descends into a child that has element children. The source
  mutates the tree in place; no two elements share an attribute, so the result is the
  tree returned here.
\<close>

fun isElement :: "node \<Rightarrow> bool" where
  "isElement (Element t as cs) = True"
| "isElement (Text s) = False"

fun updateSVGAttributes :: "bool \<Rightarrow> string \<Rightarrow> string \<Rightarrow> node \<Rightarrow> node"
  and updateChild :: "bool \<Rightarrow> string \<Rightarrow> string \<Rightarrow> node \<Rightarrow> node" where
  "updateSVGAttributes uniquifyIDs base h (Text s) = Text s"
| "updateSVGAttributes uniquifyIDs base h (Element t as cs) =
     (if \<not> uniquifyIDs then Element t as cs
      else Element t as (map (updateChild uniquifyIDs base h) cs))"
| "updateChild uniquifyIDs base h (Text s) = Text s"
| "updateChild uniquifyIDs base h (Element t as cs) =
     (let as' = (if as \<noteq> [] then updateAttributes base h as else as)
      in if filter isElement cs \<noteq> []
         then updateSVGAttributes uniquifyIDs base h (Element t as' cs)
         else Element t as' cs)"

section \<open>Errors, status values and the host\<close>

text \<open>
  An error value carries its message; \<open>InlineSVGError\<close> is the component's own class and
  \<open>HostError\<close> stands for every error raised by the host (a rejected fetch, a
  \<open>URIError\<close>, an exception of the converter).
\<close>

datatype js_error = InlineSVGError string | HostError string

fun message :: "js_error \<Rightarrow> string" where
  "message (InlineSVGError m) = m"
| "message (HostError m) = m"

datatype status = FAILED | LOADED | LOADING | PENDING | READY | UNSUPPORTED

datatype react_element = ReactElement node

text \<open>
  What the component calls and does not define is a parameter of the model:
  \<open>canUseDOM\<close> and \<open>isSupportedEnvironment\<close> (imported from \<open>./helpers\<close>), the test
  \<open>process.env.NODE_ENV === 'production'\<close>, the browser's \<open>atob\<close> and
  \<open>decodeURIComponent\<close> (either may throw), \<open>convert(text, {nodeOnly: true})\<close> as
  \<open>convertText\<close> (a node, \<open>null\<close> as \<open>None\<close>, or an exception), \<open>convert(node)\<close> as
  \<open>convertNode\<close> (\<open>None\<close> when the result is \<open>null\<close> or not a valid React element; its
  argument is \<open>None\<close> when \<open>getNode\<close> returned \<open>undefined\<close>), the nodes that assigning a
  text to \<open>innerHTML\<close> produces, and whether the call \<open>fetch(src)\<close> itself throws before
  it returns a promise.
\<close>

record host =
  canUseDOM :: bool
  isSupportedEnvironment :: bool
  production :: bool
  atob :: "string \<Rightarrow> js_error + string"
  decodeURIComponent :: "string \<Rightarrow> js_error + string"
  convertText :: "string \<Rightarrow> js_error + node option"
  convertNode :: "node option \<Rightarrow> js_error + react_element option"
  innerHTML :: "string \<Rightarrow> node list"
  fetchThrows :: "string \<Rightarrow> js_error option"

section \<open>Properties, state, the cache and the world\<close>

type_synonym cid = nat

text \<open>
  \<open>onError\<close> and \<open>onLoad\<close> say whether the consumer supplied the callback; a call of
  it is recorded in the trace, and the callback is taken to return normally and to call
  nothing of the component. A \<open>preProcessor\<close> returns the new text or throws.
\<close>

record IProps =
  baseURL :: string
  cacheRequests :: bool
  description :: string
  onError :: bool
  onLoad :: bool
  preProcessor :: "(string \<Rightarrow> js_error + string) option"
  src :: string
  title :: string
  uniqueHash :: string
  uniquifyIDs :: bool

record IState =
  content :: string
  element :: "react_element option"
  hasCache :: bool
  status :: status

text \<open>
  The queue of a cache entry holds \<open>handleLoad\<close> functions, each bound to its
  instance: the model stores the instance.
\<close>

record IStorageItem =
  cache_content :: string
  cache_queue :: "cid list"
  cache_status :: status

record consumer =
  props :: IProps
  state :: IState
  isActive :: bool
  hash :: string

text \<open>
  A request that \<open>fetch\<close> has started and whose promise chain has not run yet: the
  instance that called \<open>request\<close> and the \<open>src\<close> and \<open>cacheRequests\<close> that \<open>request\<close>
  read when it was called (the handlers close over them).
\<close>

record pending_fetch =
  requester :: cid
  fetch_src :: string
  fetch_cached :: bool

text \<open>What an observer can see the component do, in order.\<close>

datatype event =
    SetState cid status
  | OnError cid js_error
  | OnLoad cid string bool
  | ConsoleError js_error
  | HandleLoad cid string
  | Fetch cid string
  | Uncaught cid js_error

record world =
  cacheStore :: "string \<rightharpoonup> IStorageItem"
  consumers :: "cid \<Rightarrow> consumer"
  inflight :: "pending_fetch list"
  trace :: "event list"

definition emit :: "event \<Rightarrow> world \<Rightarrow> world" where
  "emit e w = w\<lparr>trace := trace w @ [e]\<rparr>"

section \<open>The component\<close>

text \<open>
  \<open>setState(update, callback)\<close> is modelled as: merge the update, re-render (which runs
  \<open>componentDidUpdate\<close> with the previous state), then run the callback. Between the
  three nothing else runs: the only suspension points are the two of a fetch. A state
  update never changes the properties, so of \<open>componentDidUpdate\<close> only the first
  half can act after it; \<open>notifyLoad\<close> is that half.
\<close>

definition notifyLoad :: "host \<Rightarrow> cid \<Rightarrow> status \<Rightarrow> world \<Rightarrow> world" where
  "notifyLoad h c prevStatus w =
     (if \<not> canUseDOM h then w
      else if prevStatus \<noteq> READY \<and> status (state (consumers w c)) = READY
      then (if onLoad (props (consumers w c))
            then emit (OnLoad c (src (props (consumers w c))) (hasCache (state (consumers w c)))) w
            else w)
      else w)"

definition setState :: "host \<Rightarrow> cid \<Rightarrow> (IState \<Rightarrow> IState) \<Rightarrow> world \<Rightarrow> world" where
  "setState h c f w =
     (let k = consumers w c;
          w1 = w\<lparr>consumers := (consumers w)(c := k\<lparr>state := f (state k)\<rparr>)\<rparr>
      in notifyLoad h c (status (state k)) (emit (SetState c (status (f (state k)))) w1))"

definition handleError :: "host \<Rightarrow> cid \<Rightarrow> js_error \<Rightarrow> world \<Rightarrow> world" where
  "handleError h c error w =
     (let st = (if message error = ''Browser does not support SVG'' then UNSUPPORTED else FAILED);
          w1 = (if \<not> production h then emit (ConsoleError error) w else w)
      in if isActive (consumers w1 c)
         then (let w2 = setState h c (\<lambda>s. s\<lparr>status := st\<rparr>) w1
               in if onError (props (consumers w c)) then emit (OnError c error) w2 else w2)
         else w1)"

text \<open>
  \<open>processSVG\<close> reads the properties and \<open>state.content\<close>; the \<open>try\<close> block of
  \<open>getNode\<close> reads the properties and the \<open>hash\<close> of the instance as well. The model
  passes them as arguments.
\<close>

definition processSVG :: "IProps \<Rightarrow> string \<Rightarrow> js_error + string" where
  "processSVG p text =
     (case preProcessor p of
        Some f \<Rightarrow> f text
      | None \<Rightarrow> Inr text)"

text \<open>
  \<open>node instanceof SVGSVGElement\<close>: the tree of the model has no namespaces, and the
  test is that the node is an element with the tag \<open>svg\<close>.
\<close>

fun isSVGSVGElement :: "node \<Rightarrow> bool" where
  "isSVGSVGElement (Element t as cs) = (t = ''svg'')"
| "isSVGSVGElement (Text s) = False"

text \<open>
  \<open>querySelector(tag)\<close> is the first descendant element with that tag in document
  order; \<open>removeFirst\<close> removes it from its parent, and is \<open>None\<close> when there is none.
\<close>

fun removeFirst :: "string \<Rightarrow> node list \<Rightarrow> node list option" where
  "removeFirst tag [] = None"
| "removeFirst tag (Text s # ns) =
     (case removeFirst tag ns of None \<Rightarrow> None | Some ns' \<Rightarrow> Some (Text s # ns'))"
| "removeFirst tag (Element t as cs # ns) =
     (if t = tag then Some ns
      else (case removeFirst tag cs of
              Some cs' \<Rightarrow> Some (Element t as cs' # ns)
            | None \<Rightarrow> (case removeFirst tag ns of
                         None \<Rightarrow> None
                       | Some ns' \<Rightarrow> Some (Element t as cs # ns'))))"

fun prependElement :: "host \<Rightarrow> string \<Rightarrow> string \<Rightarrow> node \<Rightarrow> node" where
  "prependElement h tag text (Element t as cs) =
     Element t as (Element tag [] (innerHTML h text) #
                   (case removeFirst tag cs of None \<Rightarrow> cs | Some cs' \<Rightarrow> cs'))"
| "prependElement h tag text (Text s) = Text s"

text \<open>The \<open>try\<close> block of \<open>getNode\<close>: the node it returns, or the error it throws.\<close>

definition getNodeTry :: "host \<Rightarrow> IProps \<Rightarrow> string \<Rightarrow> string \<Rightarrow> js_error + node" where
  "getNodeTry h p hsh text =
     (case processSVG p text of
        Inl e \<Rightarrow> Inl e
      | Inr svgText \<Rightarrow>
          (case convertText h svgText of
             Inl e \<Rightarrow> Inl e
           | Inr None \<Rightarrow> Inl (InlineSVGError ''Could not convert the src to a DOM Node'')
           | Inr (Some n) \<Rightarrow>
               (if \<not> isSVGSVGElement n
                then Inl (InlineSVGError ''Could not convert the src to a DOM Node'')
                else (let svg = updateSVGAttributes (uniquifyIDs p) (baseURL p) hsh n;
                          svg1 = (if description p \<noteq> []
                                  then prependElement h ''desc'' (description p) svg else svg);
                          svg2 = (if title p \<noteq> []
                                  then prependElement h ''title'' (title p) svg1 else svg1)
                      in Inr svg2))))"

text \<open>
  \<open>getNode\<close> catches the error, hands it to \<open>handleError\<close> and returns what
  \<open>handleError\<close> returns, which is \<open>undefined\<close>.
\<close>

definition getNode :: "host \<Rightarrow> cid \<Rightarrow> world \<Rightarrow> node option \<times> world" where
  "getNode h c w =
     (case getNodeTry h (props (consumers w c)) (hash (consumers w c)) (content (state (consumers w c))) of
        Inr svg \<Rightarrow> (Some svg, w)
      | Inl error \<Rightarrow> (None, handleError h c error w))"

definition getElement :: "host \<Rightarrow> cid \<Rightarrow> world \<Rightarrow> world" where
  "getElement h c w =
     (case getNode h c w of
        (n, w1) \<Rightarrow>
          (case convertNode h n of
             Inl error \<Rightarrow> handleError h c (InlineSVGError (message error)) w1
           | Inr None \<Rightarrow>
               handleError h c (InlineSVGError ''Could not convert the src to a React element'') w1
           | Inr (Some el) \<Rightarrow> setState h c (\<lambda>s. s\<lparr>element := Some el, status := READY\<rparr>) w1))"

definition handleLoad :: "host \<Rightarrow> cid \<Rightarrow> string \<Rightarrow> world \<Rightarrow> world" where
  "handleLoad h c text w =
     (let w0 = emit (HandleLoad c text) w
      in if isActive (consumers w0 c)
         then getElement h c (setState h c (\<lambda>s. s\<lparr>content := text, status := LOADED\<rparr>) w0)
         else w0)"

text \<open>
  \<open>request\<close> up to the point where \<open>fetch\<close> returns its promise. The \<open>try\<close> of
  \<open>request\<close> covers only an exception of the call \<open>fetch(src)\<close> itself.
\<close>

definition request :: "host \<Rightarrow> cid \<Rightarrow> world \<Rightarrow> world" where
  "request h c w =
     (let p = props (consumers w c);
          w1 = (if cacheRequests p
                then w\<lparr>cacheStore := (cacheStore w)(src p \<mapsto>
                        \<lparr>cache_content = [], cache_queue = [], cache_status = LOADING\<rparr>)\<rparr>
                else w)
      in case fetchThrows h (src p) of
           Some error \<Rightarrow> handleError h c (InlineSVGError (message error)) w1
         | None \<Rightarrow>
             emit (Fetch c (src p))
               (w1\<lparr>inflight := inflight w1 @
                     [\<lparr>requester = c, fetch_src = src p, fetch_cached = cacheRequests p\<rparr>]\<rparr>))"

text \<open>
  The source resolver inside \<open>load\<close>: the value of \<open>inlineSrc\<close> (empty when it is
  \<open>undefined\<close>; \<open>if (inlineSrc)\<close> treats both alike), or the exception of the decoder.
\<close>

definition inlineSource :: "host \<Rightarrow> string \<Rightarrow> js_error + string" where
  "inlineSource h s =
     (case matchDataURI s of
        Some (base64, payload) \<Rightarrow> (if base64 then atob h payload else decodeURIComponent h payload)
      | None \<Rightarrow> Inr (if js_includes s ''<svg'' then s else []))"

text \<open>
  \<open>load\<close>. The callback of its \<open>setState\<close> runs after the lifecycle method that called
  \<open>load\<close> has returned, so an exception of \<open>atob\<close> or \<open>decodeURIComponent\<close> is caught
  by nothing in the component: the trace records it and the callback ends there.
\<close>

definition load :: "host \<Rightarrow> cid \<Rightarrow> world \<Rightarrow> world" where
  "load h c w =
     (if isActive (consumers w c)
      then (let w1 = setState h c (\<lambda>s. s\<lparr>content := [], element := None, status := LOADING\<rparr>) w;
                p = props (consumers w1 c);
                cache = (if cacheRequests p then cacheStore w1 (src p) else None)
            in case cache of
                 Some entry \<Rightarrow>
                   (if cache_status entry = LOADING
                    then w1\<lparr>cacheStore := (cacheStore w1)(src p \<mapsto>
                            entry\<lparr>cache_queue := cache_queue entry @ [c]\<rparr>)\<rparr>
                    else if cache_status entry = LOADED
                    then handleLoad h c (cache_content entry) w1
                    else w1)
               | None \<Rightarrow>
                   (case inlineSource h (src p) of
                      Inl error \<Rightarrow> emit (Uncaught c error) w1
                    | Inr inlineSrc \<Rightarrow>
                        (if inlineSrc \<noteq> [] then handleLoad h c inlineSrc w1
                         else request h c w1)))
      else w)"

text \<open>The constructor; \<open>rnd\<close> is what \<open>randomString(8)\<close> returns when it is called.\<close>

definition construct :: "cid \<Rightarrow> IProps \<Rightarrow> string \<Rightarrow> world \<Rightarrow> world" where
  "construct c p rnd w =
     w\<lparr>consumers := (consumers w)(c :=
        \<lparr>props = p,
         state = \<lparr>content = [], element = None,
                  hasCache = (cacheRequests p \<and> cacheStore w (src p) \<noteq> None),
                  status = PENDING\<rparr>,
         isActive = False,
         hash = (if uniqueHash p \<noteq> [] then uniqueHash p else rnd)\<rparr>)\<rparr>"

definition componentDidMount :: "host \<Rightarrow> cid \<Rightarrow> world \<Rightarrow> world" where
  "componentDidMount h c w =
     (let w1 = w\<lparr>consumers := (consumers w)(c := (consumers w c)\<lparr>isActive := True\<rparr>)\<rparr>
      in if \<not> canUseDOM h then w1
         else if status (state (consumers w1 c)) = PENDING
         then (if \<not> isSupportedEnvironment h
               then handleError h c (InlineSVGError ''Browser does not support SVG'') w1
               else if src (props (consumers w1 c)) = []
               then handleError h c (InlineSVGError ''Missing src'') w1
               else load h c w1)
         else w1)"

text \<open>Of \<open>prevState\<close>, \<open>componentDidUpdate\<close> reads the status only.\<close>

definition componentDidUpdate :: "host \<Rightarrow> cid \<Rightarrow> IProps \<Rightarrow> status \<Rightarrow> world \<Rightarrow> world" where
  "componentDidUpdate h c prevProps prevStatus w =
     (if \<not> canUseDOM h then w
      else (let w1 = notifyLoad h c prevStatus w
            in if src prevProps \<noteq> src (props (consumers w1 c))
               then (if src (props (consumers w1 c)) = []
                     then handleError h c (InlineSVGError ''Missing src'') w1
                     else load h c w1)
               else w1))"

definition componentWillUnmount :: "cid \<Rightarrow> world \<Rightarrow> world" where
  "componentWillUnmount c w =
     w\<lparr>consumers := (consumers w)(c := (consumers w c)\<lparr>isActive := False\<rparr>)\<rparr>"

section \<open>The promise chain of a request\<close>

text \<open>
  What the network does with a request: the promise of \<open>fetch\<close> rejects, or a
  response arrives with a status code, a \<open>content-type\<close> header (empty when the header
  is absent, as \<open>contentType || ''\<close> makes it) and a body whose reading yields the text
  or rejects.
\<close>

datatype fetch_outcome = Rejected js_error | Responded nat string "js_error + string"

text \<open>
  \<open>contentType.split(/ ?; ?/)[0]\<close>: the text before the leftmost match, and a match
  starts at a semicolon or at a blank that a semicolon follows.
\<close>

fun fileTypeOf :: "string \<Rightarrow> string" where
  "fileTypeOf [] = []"
| "fileTypeOf (x # xs) =
     (if x = CHR '';'' \<or> (x = CHR '' '' \<and> startsWith xs '';'') then []
      else x # fileTypeOf xs)"

definition validFileType :: "string \<Rightarrow> bool" where
  "validFileType fileType =
     (\<exists>d \<in> set [''image/svg+xml'', ''text/plain'']. js_includes fileType d)"

text \<open>The \<open>catch\<close> handler of the chain.\<close>

definition requestCatch :: "host \<Rightarrow> pending_fetch \<Rightarrow> js_error \<Rightarrow> world \<Rightarrow> world" where
  "requestCatch h f error w =
     handleError h (requester f) error
       (if fetch_cached f then w\<lparr>cacheStore := (cacheStore w)(fetch_src f := None)\<rparr> else w)"

text \<open>
  The second \<open>then\<close> handler. \<open>filter\<close> calls the callbacks of the queue from the first
  to the last and returns the empty list, which becomes the queue.
\<close>

definition requestThen :: "host \<Rightarrow> pending_fetch \<Rightarrow> string \<Rightarrow> world \<Rightarrow> world" where
  "requestThen h f text w =
     (let w1 = handleLoad h (requester f) text w
      in if fetch_cached f
         then (case cacheStore w1 (fetch_src f) of
                 None \<Rightarrow> w1
               | Some cache \<Rightarrow>
                   (let cache' = cache\<lparr>cache_content := text, cache_status := LOADED\<rparr>;
                        w2 = w1\<lparr>cacheStore := (cacheStore w1)(fetch_src f \<mapsto> cache')\<rparr>;
                        w3 = foldl (\<lambda>v cb. handleLoad h cb text v) w2 (cache_queue cache')
                    in w3\<lparr>cacheStore := (cacheStore w3)(fetch_src f \<mapsto> cache'\<lparr>cache_queue := []\<rparr>)\<rparr>))
         else w1)"

text \<open>
  The first \<open>then\<close> handler and the reading of the body: the text that reaches the
  second handler, or the error with which the chain rejects.
\<close>

fun requestResponse :: "fetch_outcome \<Rightarrow> js_error + string" where
  "requestResponse (Rejected error) = Inl error"
| "requestResponse (Responded code contentType body) =
     (let fileType = fileTypeOf contentType
      in if code > 299 then Inl (InlineSVGError ''Not Found'')
         else if \<not> validFileType fileType
         then Inl (InlineSVGError (''Content type isn'' @ [CHR 0x27] @ ''t valid: '' @ fileType))
         else body)"

text \<open>
  The chain of the \<open>i\<close>-th pending request runs with the given outcome. The first \<open>then\<close>
  handler only inspects the response, and between it and the second nothing of the
  chain touches the world, so the two suspension points of one request are one step here:
  the request stays pending until its body is read or its chain fails.
\<close>

definition resolve :: "host \<Rightarrow> nat \<Rightarrow> fetch_outcome \<Rightarrow> world \<Rightarrow> world" where
  "resolve h i outcome w =
     (if i < length (inflight w)
      then (let f = inflight w ! i;
                w0 = w\<lparr>inflight := take i (inflight w) @ drop (Suc i) (inflight w)\<rparr>
            in case requestResponse outcome of
                 Inl error \<Rightarrow> requestCatch h f error w0
               | Inr text \<Rightarrow> requestThen h f text w0)
      else w)"

section \<open>Runs\<close>

text \<open>
  What can happen to the world, one step at a time: an instance is constructed, mounted,
  given new properties (React calls \<open>componentDidUpdate\<close> only on a mounted instance,
  and the instance is mounted exactly while \<open>isActive\<close> holds) or unmounted, or the
  chain of a pending request runs.
\<close>

datatype action =
    Construct cid IProps string
  | Mount cid
  | SetProps cid IProps
  | Unmount cid
  | Resolve nat fetch_outcome

fun step :: "host \<Rightarrow> world \<Rightarrow> action \<Rightarrow> world" where
  "step h w (Construct c p rnd) = construct c p rnd w"
| "step h w (Mount c) = componentDidMount h c w"
| "step h w (SetProps c p) =
     (if isActive (consumers w c)
      then componentDidUpdate h c (props (consumers w c)) (status (state (consumers w c)))
             (w\<lparr>consumers := (consumers w)(c := (consumers w c)\<lparr>props := p\<rparr>)\<rparr>)
      else w)"
| "step h w (Unmount c) = componentWillUnmount c w"
| "step h w (Resolve i outcome) = resolve h i outcome w"

definition run :: "host \<Rightarrow> world \<Rightarrow> action list \<Rightarrow> world" where
  "run h w acts = foldl (step h) w acts"

definition emptyConsumer :: consumer where
  "emptyConsumer =
     \<lparr>props = \<lparr>baseURL = [], cacheRequests = True, description = [], onError = False,
               onLoad = False, preProcessor = None, src = [], title = [], uniqueHash = [],
               uniquifyIDs = False\<rparr>,
      state = \<lparr>content = [], element = None, hasCache = False, status = PENDING\<rparr>,
      isActive = False, hash = []\<rparr>"

definition initialWorld :: world where
  "initialWorld =
     \<lparr>cacheStore = Map.empty, consumers = (\<lambda>c. emptyConsumer), inflight = [], trace = []\<rparr>"

section \<open>Observations and the invariant of the cache\<close>

text \<open>The trace read by kind of event.\<close>

fun callbacks :: "event list \<Rightarrow> (cid \<times> string) list" where
  "callbacks [] = []"
| "callbacks (HandleLoad c text # es) = (c, text) # callbacks es"
| "callbacks (e # es) = callbacks es"

fun errorCalls :: "event list \<Rightarrow> (cid \<times> js_error) list" where
  "errorCalls [] = []"
| "errorCalls (OnError c error # es) = (c, error) # errorCalls es"
| "errorCalls (e # es) = errorCalls es"

fun statusWrites :: "event list \<Rightarrow> (cid \<times> status) list" where
  "statusWrites [] = []"
| "statusWrites (SetState c st # es) = (c, st) # statusWrites es"
| "statusWrites (e # es) = statusWrites es"

fun fetches :: "event list \<Rightarrow> (cid \<times> string) list" where
  "fetches [] = []"
| "fetches (Fetch c s # es) = (c, s) # fetches es"
| "fetches (e # es) = fetches es"

text \<open>
  The pending requests that were made with caching enabled, and the invariant: no two
  of them are for the same source, and each has an entry of status \<open>LOADING\<close>.
\<close>

definition cachedRequests :: "world \<Rightarrow> string list" where
  "cachedRequests w = map fetch_src (filter fetch_cached (inflight w))"

definition cacheInv :: "world \<Rightarrow> bool" where
  "cacheInv w =
     (distinct (cachedRequests w) \<and>
      (\<forall>s \<in> set (cachedRequests w).
         case cacheStore w s of None \<Rightarrow> False | Some entry \<Rightarrow> cache_status entry = LOADING))"

text \<open>Two worlds that differ at most in the instance \<open>c\<close> and in the trace.\<close>

definition agreeExcept :: "cid \<Rightarrow> world \<Rightarrow> world \<Rightarrow> bool" where
  "agreeExcept c w w' =
     (cacheStore w = cacheStore w' \<and> inflight w = inflight w' \<and>
      (\<forall>k. k \<noteq> c \<longrightarrow> consumers w k = consumers w' k))"

text \<open>
  The actions that make the instance \<open>c\<close> a mounted instance again, and the actions
  that are asynchronous completions.
\<close>

fun revives :: "cid \<Rightarrow> action \<Rightarrow> bool" where
  "revives c (Construct k p rnd) = (k = c)"
| "revives c (Mount k) = (k = c)"
| "revives c a = False"

fun isCompletion :: "action \<Rightarrow> bool" where
  "isCompletion (Resolve i outcome) = True"
| "isCompletion a = False"

text \<open>The instances of a list call \<open>load\<close> one after the other, and no chain runs in between.\<close>

definition loads :: "host \<Rightarrow> cid list \<Rightarrow> world \<Rightarrow> world" where
  "loads h cs w = foldl (\<lambda>v k. load h k v) w cs"

text \<open>Every key of the cache is a source that the resolver sends to the network.\<close>

definition remoteKeys :: "host \<Rightarrow> world \<Rightarrow> bool" where
  "remoteKeys h w = (\<forall>s \<in> dom (cacheStore w). inlineSource h s = Inr [])"

section \<open>A concrete host and concrete instances\<close>

text \<open>
  A host for evaluating the component on concrete inputs. It answers as a browser does
  on the inputs used below: \<open>decodeURIComponent\<close> returns a text without a percent sign
  unchanged, \<open>atob\<close> of the empty text is the empty text, the converter turns the
  markup \<open><svg/>\<close> into an \<open>svg\<close> element without children and \<open><div/>\<close> into a \<open>div\<close>
  element, and \<open>convert\<close> of \<open>undefined\<close> is \<open>null\<close>. On every other input its decoders
  throw and its converter returns \<open>null\<close>.
\<close>

definition testHost :: host where
  "testHost =
     \<lparr>canUseDOM = True, isSupportedEnvironment = True, production = False,
      atob = (\<lambda>s. if s = [] then Inr [] else Inl (HostError ''InvalidCharacterError'')),
      decodeURIComponent = (\<lambda>s. if CHR ''%'' \<in> set s then Inl (HostError ''URI malformed'') else Inr s),
      convertText = (\<lambda>s. if s = ''<svg/>'' then Inr (Some (Element ''svg'' [] []))
                          else if s = ''<div/>'' then Inr (Some (Element ''div'' [] []))
                          else Inr None),
      convertNode = (\<lambda>n. case n of None \<Rightarrow> Inr None | Some d \<Rightarrow> Inr (Some (ReactElement d))),
      innerHTML = (\<lambda>s. [Text s]),
      fetchThrows = (\<lambda>s. None)\<rparr>"

definition testProps :: "string \<Rightarrow> IProps" where
  "testProps s =
     \<lparr>baseURL = [], cacheRequests = True, description = [], onError = True, onLoad = True,
      preProcessor = None, src = s, title = [], uniqueHash = ''abc123'', uniquifyIDs = True\<rparr>"

text \<open>
  Three instances with the same remote source are constructed and mounted one after the
  other, and nothing else has happened yet.
\<close>

definition sampleURL :: string where "sampleURL = ''https://x/a.svg''"

definition pendingWorld :: world where
  "pendingWorld = run testHost initialWorld
     [Construct 0 (testProps sampleURL) ''r0'', Construct 1 (testProps sampleURL) ''r1'',
      Construct 2 (testProps sampleURL) ''r2'', Mount 0, Mount 1, Mount 2]"

text \<open>
  One instance whose source is a data URI, constructed and mounted; and the world in
  which \<open>componentDidMount\<close> calls \<open>load\<close> for a first instance with the source \<open>s\<close>:
  the instance has been constructed and \<open>isActive\<close> has just been set.
\<close>

definition inlineWorld :: world where
  "inlineWorld = run testHost initialWorld
     [Construct 0 (testProps ''data:image/svg+xml,<svg/>'') ''r0'', Mount 0]"

definition mounting :: "string \<Rightarrow> world" where
  "mounting s =
     (let w = construct 0 (testProps s) ''r0'' initialWorld
      in w\<lparr>consumers := (consumers w)(0 := (consumers w 0)\<lparr>isActive := True\<rparr>)\<rparr>)"

text \<open>
  The world after the request of the three instances has failed with status 404, and a
  response that succeeds.
\<close>

definition retryWorld :: world where
  "retryWorld = resolve testHost 0 (Responded 404 ''text/html'' (Inr ''gone'')) pendingWorld"

definition sampleResponse :: fetch_outcome where
  "sampleResponse = Responded 200 ''image/svg+xml; charset=utf-8'' (Inr ''<svg/>'')"

section \<open>What each function leaves alone\<close>

lemma callbacks_append [simp]: "callbacks (xs @ ys) = callbacks xs @ callbacks ys"
  by (induction xs rule: callbacks.induct) simp_all

lemma errorCalls_append [simp]: "errorCalls (xs @ ys) = errorCalls xs @ errorCalls ys"
  by (induction xs rule: errorCalls.induct) simp_all

lemma statusWrites_append [simp]: "statusWrites (xs @ ys) = statusWrites xs @ statusWrites ys"
  by (induction xs rule: statusWrites.induct) simp_all

lemma fetches_append [simp]: "fetches (xs @ ys) = fetches xs @ fetches ys"
  by (induction xs rule: fetches.induct) simp_all

lemma emit_fields [simp]:
  "cacheStore (emit e w) = cacheStore w"
  "consumers (emit e w) = consumers w"
  "inflight (emit e w) = inflight w"
  "trace (emit e w) = trace w @ [e]"
  by (simp_all add: emit_def)

lemma notifyLoad_fields [simp]:
  "cacheStore (notifyLoad h c st w) = cacheStore w"
  "consumers (notifyLoad h c st w) = consumers w"
  "inflight (notifyLoad h c st w) = inflight w"
  by (simp_all add: notifyLoad_def)

lemma notifyLoad_trace [simp]:
  "callbacks (trace (notifyLoad h c st w)) = callbacks (trace w)"
  "errorCalls (trace (notifyLoad h c st w)) = errorCalls (trace w)"
  "statusWrites (trace (notifyLoad h c st w)) = statusWrites (trace w)"
  "fetches (trace (notifyLoad h c st w)) = fetches (trace w)"
  by (simp_all add: notifyLoad_def)

lemma setState_fields [simp]:
  "cacheStore (setState h c f w) = cacheStore w"
  "inflight (setState h c f w) = inflight w"
  "consumers (setState h c f w) = (consumers w)(c := (consumers w c)\<lparr>state := f (state (consumers w c))\<rparr>)"
  by (simp_all add: setState_def Let_def)

lemma setState_trace [simp]:
  "callbacks (trace (setState h c f w)) = callbacks (trace w)"
  "errorCalls (trace (setState h c f w)) = errorCalls (trace w)"
  "statusWrites (trace (setState h c f w)) = statusWrites (trace w) @ [(c, status (f (state (consumers w c))))]"
  "fetches (trace (setState h c f w)) = fetches (trace w)"
  by (simp_all add: setState_def Let_def)

lemma handleError_fields [simp]:
  "cacheStore (handleError h c e w) = cacheStore w"
  "inflight (handleError h c e w) = inflight w"
  "consumers (handleError h c e w) =
     (if isActive (consumers w c)
      then (consumers w)(c := (consumers w c)\<lparr>state := (state (consumers w c))\<lparr>status :=
             (if message e = ''Browser does not support SVG'' then UNSUPPORTED else FAILED)\<rparr>\<rparr>)
      else consumers w)"
  by (simp_all add: handleError_def Let_def)

lemma handleError_trace [simp]:
  "callbacks (trace (handleError h c e w)) = callbacks (trace w)"
  "fetches (trace (handleError h c e w)) = fetches (trace w)"
  "errorCalls (trace (handleError h c e w)) =
     errorCalls (trace w) @ (if isActive (consumers w c) \<and> onError (props (consumers w c)) then [(c, e)] else [])"
  "statusWrites (trace (handleError h c e w)) =
     statusWrites (trace w) @ (if isActive (consumers w c) then [(c, if message e = ''Browser does not support SVG'' then UNSUPPORTED else FAILED)] else [])"
  by (simp_all add: handleError_def Let_def)

lemma getNode_fields [simp]:
  "cacheStore (snd (getNode h c w)) = cacheStore w"
  "inflight (snd (getNode h c w)) = inflight w"
  "callbacks (trace (snd (getNode h c w))) = callbacks (trace w)"
  "fetches (trace (snd (getNode h c w))) = fetches (trace w)"
  by (simp_all add: getNode_def split: sum.splits)

lemma getElement_fields [simp]:
  "cacheStore (getElement h c w) = cacheStore w"
  "inflight (getElement h c w) = inflight w"
  "callbacks (trace (getElement h c w)) = callbacks (trace w)"
  "fetches (trace (getElement h c w)) = fetches (trace w)"
  by (simp_all add: getElement_def getNode_def split: sum.splits option.splits prod.splits)

lemma handleLoad_fields [simp]:
  "cacheStore (handleLoad h c x w) = cacheStore w"
  "inflight (handleLoad h c x w) = inflight w"
  "callbacks (trace (handleLoad h c x w)) = callbacks (trace w) @ [(c, x)]"
  "fetches (trace (handleLoad h c x w)) = fetches (trace w)"
  by (simp_all add: handleLoad_def Let_def)

lemma getNode_consumers:
  "consumers (snd (getNode h c w)) =
     (case getNodeTry h (props (consumers w c)) (hash (consumers w c)) (content (state (consumers w c))) of
        Inr svg \<Rightarrow> consumers w
      | Inl e \<Rightarrow> consumers (handleError h c e w))"
  by (simp add: getNode_def split: sum.splits)

lemma getNode_fst:
  "fst (getNode h c w) =
     (case getNodeTry h (props (consumers w c)) (hash (consumers w c)) (content (state (consumers w c))) of
        Inr svg \<Rightarrow> Some svg
      | Inl e \<Rightarrow> None)"
  by (simp add: getNode_def split: sum.splits)

lemma getElement_other: "k \<noteq> c \<Longrightarrow> consumers (getElement h c w) k = consumers w k"
  by (simp add: getElement_def getNode_def split: sum.splits option.splits prod.splits)

lemma getElement_static:
  "props (consumers (getElement h c w) k) = props (consumers w k)"
  "isActive (consumers (getElement h c w) k) = isActive (consumers w k)"
  "hash (consumers (getElement h c w) k) = hash (consumers w k)"
  by (simp_all add: getElement_def getNode_def split: sum.splits option.splits prod.splits)

lemma getElement_local:
  "consumers w c = consumers w' c \<Longrightarrow> consumers (getElement h c w) c = consumers (getElement h c w') c"
  by (simp add: getElement_def getNode_def split: sum.splits option.splits prod.splits)

lemma handleLoad_other: "k \<noteq> c \<Longrightarrow> consumers (handleLoad h c x w) k = consumers w k"
  by (simp add: handleLoad_def Let_def getElement_other)

lemma handleLoad_static [simp]:
  "props (consumers (handleLoad h c x w) k) = props (consumers w k)"
  "isActive (consumers (handleLoad h c x w) k) = isActive (consumers w k)"
  "hash (consumers (handleLoad h c x w) k) = hash (consumers w k)"
  by (simp_all add: handleLoad_def Let_def getElement_static)

lemma handleLoad_inactive:
  "\<not> isActive (consumers w c) \<Longrightarrow> consumers (handleLoad h c x w) = consumers w"
  by (simp add: handleLoad_def Let_def)

lemma handleLoad_local:
  "consumers w c = consumers w' c \<Longrightarrow> consumers (handleLoad h c x w) c = consumers (handleLoad h c x w') c"
  by (simp add: handleLoad_def Let_def getElement_local)

lemma handleLoad_frozen:
  "\<not> isActive (consumers w c) \<Longrightarrow> consumers (handleLoad h k x w) c = consumers w c"
  by (cases "k = c") (simp_all add: handleLoad_inactive handleLoad_other)

lemma handleError_frozen:
  "\<not> isActive (consumers w c) \<Longrightarrow> consumers (handleError h k e w) c = consumers w c"
  by (cases "k = c") simp_all

lemma IStorageItem_updates [simp]:
  "(e :: IStorageItem)\<lparr>cache_content := a, cache_status := b, cache_queue := q\<rparr> =
     \<lparr>cache_content = a, cache_queue = q, cache_status = b\<rparr>"
  by (cases e) simp

lemma drain_fields [simp]:
  "cacheStore (foldl (\<lambda>v cb. handleLoad h cb x v) w q) = cacheStore w"
  "inflight (foldl (\<lambda>v cb. handleLoad h cb x v) w q) = inflight w"
  "fetches (trace (foldl (\<lambda>v cb. handleLoad h cb x v) w q)) = fetches (trace w)"
  "props (consumers (foldl (\<lambda>v cb. handleLoad h cb x v) w q) k) = props (consumers w k)"
  "isActive (consumers (foldl (\<lambda>v cb. handleLoad h cb x v) w q) k) = isActive (consumers w k)"
  "hash (consumers (foldl (\<lambda>v cb. handleLoad h cb x v) w q) k) = hash (consumers w k)"
  by (induction q arbitrary: w) simp_all

lemma drain_callbacks:
  "callbacks (trace (foldl (\<lambda>v cb. handleLoad h cb x v) w q)) =
     callbacks (trace w) @ map (\<lambda>cb. (cb, x)) q"
  by (induction q arbitrary: w) simp_all

lemma drain_frozen:
  "\<not> isActive (consumers w c) \<Longrightarrow>
     consumers (foldl (\<lambda>v cb. handleLoad h cb x v) w q) c = consumers w c"
  by (induction q arbitrary: w) (simp_all add: handleLoad_frozen)

lemma request_fields:
  "inflight (request h c w) =
     (case fetchThrows h (src (props (consumers w c))) of
        Some e \<Rightarrow> inflight w
      | None \<Rightarrow> inflight w @ [\<lparr>requester = c, fetch_src = src (props (consumers w c)),
                                 fetch_cached = cacheRequests (props (consumers w c))\<rparr>])"
  "cacheStore (request h c w) =
     (if cacheRequests (props (consumers w c))
      then (cacheStore w)(src (props (consumers w c)) \<mapsto>
             \<lparr>cache_content = [], cache_queue = [], cache_status = LOADING\<rparr>)
      else cacheStore w)"
  "callbacks (trace (request h c w)) = callbacks (trace w)"
  by (simp_all add: request_def Let_def split: option.splits)

lemma request_static [simp]:
  "props (consumers (request h c w) k) = props (consumers w k)"
  "isActive (consumers (request h c w) k) = isActive (consumers w k)"
  "hash (consumers (request h c w) k) = hash (consumers w k)"
  by (simp_all add: request_def Let_def split: option.splits)

lemma request_frozen:
  "\<not> isActive (consumers w c) \<Longrightarrow> consumers (request h k w) c = consumers w c"
  by (cases "k = c") (simp_all add: request_def Let_def split: option.splits)

lemma load_fresh:
  assumes "isActive (consumers w c)"
    and "cacheRequests (props (consumers w c)) \<longrightarrow> cacheStore w (src (props (consumers w c))) = None"
  shows "load h c w =
     (let w1 = setState h c (\<lambda>s. s\<lparr>content := [], element := None, status := LOADING\<rparr>) w
      in case inlineSource h (src (props (consumers w c))) of
           Inl error \<Rightarrow> emit (Uncaught c error) w1
         | Inr inlineSrc \<Rightarrow> if inlineSrc \<noteq> [] then handleLoad h c inlineSrc w1 else request h c w1)"
  using assms by (auto simp add: load_def Let_def split: option.splits sum.splits)

lemma load_cached:
  assumes "isActive (consumers w c)" "cacheRequests (props (consumers w c))"
    and "cacheStore w (src (props (consumers w c))) = Some entry"
  shows "load h c w =
     (let w1 = setState h c (\<lambda>s. s\<lparr>content := [], element := None, status := LOADING\<rparr>) w
      in if cache_status entry = LOADING
         then w1\<lparr>cacheStore := (cacheStore w1)(src (props (consumers w c)) \<mapsto>
                 entry\<lparr>cache_queue := cache_queue entry @ [c]\<rparr>)\<rparr>
         else if cache_status entry = LOADED then handleLoad h c (cache_content entry) w1
         else w1)"
  using assms by (simp add: load_def Let_def)

lemma load_static [simp]:
  "props (consumers (load h c w) k) = props (consumers w k)"
  "isActive (consumers (load h c w) k) = isActive (consumers w k)"
  "hash (consumers (load h c w) k) = hash (consumers w k)"
  by (simp_all add: load_def Let_def split: option.splits sum.splits)

lemma request_other: "k \<noteq> c \<Longrightarrow> consumers (request h c w) k = consumers w k"
  by (simp add: request_def Let_def split: option.splits)

lemma load_other: "k \<noteq> c \<Longrightarrow> consumers (load h c w) k = consumers w k"
  by (simp add: load_def Let_def handleLoad_other request_other split: option.splits sum.splits)

lemma load_inactive: "\<not> isActive (consumers w c) \<Longrightarrow> load h c w = w"
  by (simp add: load_def)

lemma load_frozen:
  "\<not> isActive (consumers w c) \<Longrightarrow> consumers (load h k w) c = consumers w c"
  by (cases "k = c") (simp_all add: load_inactive load_other)

lemma requestCatch_fields:
  "cacheStore (requestCatch h f e w) =
     (if fetch_cached f then (cacheStore w)(fetch_src f := None) else cacheStore w)"
  "inflight (requestCatch h f e w) = inflight w"
  "callbacks (trace (requestCatch h f e w)) = callbacks (trace w)"
  "fetches (trace (requestCatch h f e w)) = fetches (trace w)"
  "errorCalls (trace (requestCatch h f e w)) =
     errorCalls (trace w) @
       (if isActive (consumers w (requester f)) \<and> onError (props (consumers w (requester f)))
        then [(requester f, e)] else [])"
  "k \<noteq> requester f \<Longrightarrow> consumers (requestCatch h f e w) k = consumers w k"
  by (simp_all add: requestCatch_def)

lemma requestCatch_static [simp]:
  "props (consumers (requestCatch h f e w) k) = props (consumers w k)"
  "isActive (consumers (requestCatch h f e w) k) = isActive (consumers w k)"
  "hash (consumers (requestCatch h f e w) k) = hash (consumers w k)"
  by (simp_all add: requestCatch_def)

lemma requestThen_fields:
  "inflight (requestThen h f x w) = inflight w"
  "fetches (trace (requestThen h f x w)) = fetches (trace w)"
  "cacheStore (requestThen h f x w) =
     (if fetch_cached f
      then (case cacheStore w (fetch_src f) of
              None \<Rightarrow> cacheStore w
            | Some entry \<Rightarrow> (cacheStore w)(fetch_src f \<mapsto>
                 \<lparr>cache_content = x, cache_queue = [], cache_status = LOADED\<rparr>))
      else cacheStore w)"
  "callbacks (trace (requestThen h f x w)) =
     callbacks (trace w) @ (requester f, x) #
       (if fetch_cached f
        then (case cacheStore w (fetch_src f) of
                None \<Rightarrow> []
              | Some entry \<Rightarrow> map (\<lambda>cb. (cb, x)) (cache_queue entry))
        else [])"
  by (simp_all add: requestThen_def Let_def drain_callbacks split: option.splits)

lemma requestThen_static [simp]:
  "props (consumers (requestThen h f x w) k) = props (consumers w k)"
  "isActive (consumers (requestThen h f x w) k) = isActive (consumers w k)"
  "hash (consumers (requestThen h f x w) k) = hash (consumers w k)"
  by (simp_all add: requestThen_def Let_def split: option.splits)

section \<open>The concrete world\<close>

lemma sampleURL_remote: "inlineSource testHost sampleURL = Inr []"
  by (simp add: inlineSource_def sampleURL_def matchDataURI_def js_includes_def startsWith_def)

lemma pendingWorld_inflight:
  "inflight pendingWorld = [\<lparr>requester = 0, fetch_src = sampleURL, fetch_cached = True\<rparr>]"
  by (simp add: pendingWorld_def run_def construct_def componentDidMount_def testProps_def 
     initialWorld_def testHost_def load_def Let_def request_def emptyConsumer_def inlineSource_def sampleURL_def matchDataURI_def js_includes_def startsWith_def)

lemma pendingWorld_cache:
  "cacheStore pendingWorld sampleURL = Some \<lparr>cache_content = [], cache_queue = [1, 2], cache_status = LOADING\<rparr>"
  by (simp add: pendingWorld_def run_def construct_def componentDidMount_def testProps_def 
     initialWorld_def testHost_def load_def Let_def request_def emptyConsumer_def inlineSource_def sampleURL_def matchDataURI_def js_includes_def startsWith_def)

lemma pendingWorld_consumers:
  "isActive (consumers pendingWorld k) = (k \<in> {0, 1, 2})"
  "k \<in> {0, 1, 2} \<Longrightarrow> props (consumers pendingWorld k) = testProps sampleURL"
  by (auto simp add: pendingWorld_def run_def construct_def componentDidMount_def testProps_def 
     initialWorld_def testHost_def load_def Let_def request_def emptyConsumer_def inlineSource_def sampleURL_def matchDataURI_def js_includes_def startsWith_def)

section \<open>The error classifier\<close>

text \<open>
  Claim C8. \<open>handleError\<close> sets the status \<open>UNSUPPORTED\<close> exactly when the message of the
  error is \<open>Browser does not support SVG\<close>, whatever the class of the error, and the
  status \<open>FAILED\<close> for every other message; it writes the status once. At mount, a host
  without SVG support gives \<open>UNSUPPORTED\<close>, and an empty \<open>src\<close> on a host with support
  gives \<open>FAILED\<close> with the error \<open>Missing src\<close>.
\<close>

theorem error_classifier:
  "isActive (consumers w c) \<Longrightarrow>
     (status (state (consumers (handleError h c error w) c)) = UNSUPPORTED) =
       (message error = ''Browser does not support SVG'') \<and>
     (status (state (consumers (handleError h c error w) c)) = FAILED) =
       (message error \<noteq> ''Browser does not support SVG'') \<and>
     statusWrites (trace (handleError h c error w)) =
       statusWrites (trace w) @
         [(c, if message error = ''Browser does not support SVG'' then UNSUPPORTED else FAILED)] \<and>
     (canUseDOM h \<and> status (state (consumers v k)) = PENDING \<and> \<not> isSupportedEnvironment h \<longrightarrow>
        status (state (consumers (componentDidMount h k v) k)) = UNSUPPORTED) \<and>
     (canUseDOM h \<and> status (state (consumers v k)) = PENDING \<and> isSupportedEnvironment h \<and>
      src (props (consumers v k)) = [] \<longrightarrow>
        status (state (consumers (componentDidMount h k v) k)) = FAILED \<and>
        errorCalls (trace (componentDidMount h k v)) =
          errorCalls (trace v) @
            (if onError (props (consumers v k)) then [(k, InlineSVGError ''Missing src'')] else []))"
  by (simp add: componentDidMount_def Let_def)

theorem error_classifier_witness:
  "isActive (consumers pendingWorld 0) \<and>
   status (state (consumers (handleError testHost 0 (InlineSVGError ''Missing src'') pendingWorld) 0)) = FAILED \<and>
   status (state (consumers (handleError testHost 0 (InlineSVGError ''Browser does not support SVG'') pendingWorld) 0)) = UNSUPPORTED \<and>
   status (state (consumers (handleError testHost 0 (HostError ''Browser does not support SVG'') pendingWorld) 0)) = UNSUPPORTED \<and>
   status (state (consumers (handleError testHost 0 (HostError ''Failed to fetch'') pendingWorld) 0)) = FAILED \<and>
   status (state (consumers (handleError testHost 0 (InlineSVGError ''Could not convert the src to a DOM Node'') pendingWorld) 0)) = FAILED"
proof -
  have a: "isActive (consumers pendingWorld 0)"
    by (simp add: pendingWorld_consumers)
  note t = error_classifier [OF a, of testHost]
  have "status (state (consumers (handleError testHost 0 (InlineSVGError ''Missing src'') pendingWorld) 0)) = FAILED"
    using t [of "InlineSVGError ''Missing src''"] by simp
  moreover have "status (state (consumers (handleError testHost 0 (InlineSVGError ''Browser does not support SVG'') pendingWorld) 0)) = UNSUPPORTED"
    using t [of "InlineSVGError ''Browser does not support SVG''"] by simp
  moreover have "status (state (consumers (handleError testHost 0 (HostError ''Browser does not support SVG'') pendingWorld) 0)) = UNSUPPORTED"
    using t [of "HostError ''Browser does not support SVG''"] by simp
  moreover have "status (state (consumers (handleError testHost 0 (HostError ''Failed to fetch'') pendingWorld) 0)) = FAILED"
    using t [of "HostError ''Failed to fetch''"] by simp
  moreover have "status (state (consumers (handleError testHost 0 (InlineSVGError ''Could not convert the src to a DOM Node'') pendingWorld) 0)) = FAILED"
    using t [of "InlineSVGError ''Could not convert the src to a DOM Node''"] by simp
  ultimately show ?thesis using a by blast
qed

section \<open>A cached request that succeeds\<close>

text \<open>
  Claim C2. When the chain of a request made with caching enabled reaches its second
  handler with the text, the entry of its source becomes \<open>LOADED\<close> with the text as
  content and the empty queue, and it stays in the cache; \<open>handleLoad\<close> has been called
  with the text for the requester and then for each instance of the queue, once each, in
  the order of the queue; and a later \<open>load\<close> of that source by an active instance with
  caching enabled starts no request and is served the text.
\<close>

theorem cached_fetch_success:
  assumes "i < length (inflight w)"
    and "fetch_cached (inflight w ! i)"
    and "cacheStore w (fetch_src (inflight w ! i)) = Some entry"
    and "requestResponse outcome = Inr text"
  shows "cacheStore (resolve h i outcome w) =
           (cacheStore w)(fetch_src (inflight w ! i) \<mapsto>
              \<lparr>cache_content = text, cache_queue = [], cache_status = LOADED\<rparr>) \<and>
         callbacks (trace (resolve h i outcome w)) =
           callbacks (trace w) @ (requester (inflight w ! i), text) #
             map (\<lambda>cb. (cb, text)) (cache_queue entry) \<and>
         (\<forall>k. isActive (consumers (resolve h i outcome w) k) \<and>
              cacheRequests (props (consumers (resolve h i outcome w) k)) \<and>
              src (props (consumers (resolve h i outcome w) k)) = fetch_src (inflight w ! i) \<longrightarrow>
              inflight (load h k (resolve h i outcome w)) = inflight (resolve h i outcome w) \<and>
              callbacks (trace (load h k (resolve h i outcome w))) =
                callbacks (trace (resolve h i outcome w)) @ [(k, text)])"
proof -
  let ?f = "inflight w ! i"
  let ?w0 = "w\<lparr>inflight := take i (inflight w) @ drop (Suc i) (inflight w)\<rparr>"
  let ?W = "resolve h i outcome w"
  have W: "?W = requestThen h ?f text ?w0"
    using assms(1,4) by (simp add: resolve_def Let_def)
  have cache: "cacheStore ?W =
      (cacheStore w)(fetch_src ?f \<mapsto> \<lparr>cache_content = text, cache_queue = [], cache_status = LOADED\<rparr>)"
    using assms(2,3) by (simp add: W requestThen_fields)
  have calls: "callbacks (trace ?W) =
      callbacks (trace w) @ (requester ?f, text) # map (\<lambda>cb. (cb, text)) (cache_queue entry)"
    using assms(2,3) by (simp add: W requestThen_fields)
  have hit: "inflight (load h k ?W) = inflight ?W \<and>
             callbacks (trace (load h k ?W)) = callbacks (trace ?W) @ [(k, text)]"
    if "isActive (consumers ?W k)" "cacheRequests (props (consumers ?W k))"
       "src (props (consumers ?W k)) = fetch_src ?f" for k
  proof -
    have "cacheStore ?W (src (props (consumers ?W k))) =
            Some \<lparr>cache_content = text, cache_queue = [], cache_status = LOADED\<rparr>"
      using that(3) by (simp add: cache)
    from load_cached [OF that(1,2) this] show ?thesis
      by (simp add: Let_def)
  qed
  from cache calls hit show ?thesis by blast
qed

theorem cached_fetch_success_witness:
  "0 < length (inflight pendingWorld) \<and> fetch_cached (inflight pendingWorld ! 0) \<and>
   cacheStore pendingWorld (fetch_src (inflight pendingWorld ! 0)) =
     Some \<lparr>cache_content = [], cache_queue = [1, 2], cache_status = LOADING\<rparr> \<and>
   requestResponse (Responded 200 ''image/svg+xml; charset=utf-8'' (Inr ''<svg/>'')) = Inr ''<svg/>'' \<and>
   cacheStore (resolve testHost 0 (Responded 200 ''image/svg+xml; charset=utf-8'' (Inr ''<svg/>'')) pendingWorld) sampleURL =
     Some \<lparr>cache_content = ''<svg/>'', cache_queue = [], cache_status = LOADED\<rparr> \<and>
   callbacks (trace (resolve testHost 0 (Responded 200 ''image/svg+xml; charset=utf-8'' (Inr ''<svg/>'')) pendingWorld)) =
     [(0, ''<svg/>''), (1, ''<svg/>''), (2, ''<svg/>'')]"
proof -
  have r: "requestResponse (Responded 200 ''image/svg+xml; charset=utf-8'' (Inr ''<svg/>'')) = Inr ''<svg/>''"
    by (simp add: validFileType_def js_includes_def startsWith_def)
  have c: "cacheStore pendingWorld (fetch_src (inflight pendingWorld ! 0)) =
     Some \<lparr>cache_content = [], cache_queue = [1, 2], cache_status = LOADING\<rparr>"
    by (simp add: pendingWorld_inflight pendingWorld_cache)
  have t: "callbacks (trace pendingWorld) = []"
    by code_simp
  have i: "0 < length (inflight pendingWorld)" and f: "fetch_cached (inflight pendingWorld ! 0)"
    by (simp_all add: pendingWorld_inflight)
  from cached_fetch_success [OF i f c r, of testHost] show ?thesis
    using r c i f by (simp add: pendingWorld_inflight t)
qed

section \<open>A cached request that fails\<close>

text \<open>
  Claim C3. When the chain of a request made with caching enabled rejects (the promise
  of \<open>fetch\<close> rejects, the status code is above 299, the content type is not valid, or
  the body cannot be read), the entry of its source is deleted; no \<open>handleLoad\<close> is
  called, so the instances of the queue hear nothing; the error goes to the \<open>onError\<close>
  of the requester alone and no other instance changes; and a later \<open>load\<close> of the source
  starts a new request.
\<close>

theorem cached_fetch_failure:
  assumes "i < length (inflight w)"
    and "fetch_cached (inflight w ! i)"
    and "requestResponse outcome = Inl error"
  shows "cacheStore (resolve h i outcome w) = (cacheStore w)(fetch_src (inflight w ! i) := None) \<and>
         callbacks (trace (resolve h i outcome w)) = callbacks (trace w) \<and>
         errorCalls (trace (resolve h i outcome w)) =
           errorCalls (trace w) @
             (if isActive (consumers w (requester (inflight w ! i))) \<and>
                 onError (props (consumers w (requester (inflight w ! i))))
              then [(requester (inflight w ! i), error)] else []) \<and>
         (\<forall>k. k \<noteq> requester (inflight w ! i) \<longrightarrow> consumers (resolve h i outcome w) k = consumers w k) \<and>
         (\<forall>k. isActive (consumers (resolve h i outcome w) k) \<and>
              cacheRequests (props (consumers (resolve h i outcome w) k)) \<and>
              src (props (consumers (resolve h i outcome w) k)) = fetch_src (inflight w ! i) \<and>
              inlineSource h (fetch_src (inflight w ! i)) = Inr [] \<and>
              fetchThrows h (fetch_src (inflight w ! i)) = None \<longrightarrow>
              inflight (load h k (resolve h i outcome w)) =
                inflight (resolve h i outcome w) @
                  [\<lparr>requester = k, fetch_src = fetch_src (inflight w ! i), fetch_cached = True\<rparr>])"
proof -
  let ?f = "inflight w ! i"
  let ?w0 = "w\<lparr>inflight := take i (inflight w) @ drop (Suc i) (inflight w)\<rparr>"
  let ?W = "resolve h i outcome w"
  have W: "?W = requestCatch h ?f error ?w0"
    using assms(1,3) by (simp add: resolve_def Let_def)
  have cache: "cacheStore ?W = (cacheStore w)(fetch_src ?f := None)"
    using assms(2) by (simp add: W requestCatch_fields)
  have calls: "callbacks (trace ?W) = callbacks (trace w)"
    by (simp add: W requestCatch_fields)
  have errs: "errorCalls (trace ?W) =
           errorCalls (trace w) @
             (if isActive (consumers w (requester ?f)) \<and> onError (props (consumers w (requester ?f)))
              then [(requester ?f, error)] else [])"
    by (simp add: W requestCatch_fields)
  have others: "consumers ?W k = consumers w k" if "k \<noteq> requester ?f" for k
    using that by (simp add: W requestCatch_fields)
  have fresh: "inflight (load h k ?W) =
        inflight ?W @ [\<lparr>requester = k, fetch_src = fetch_src ?f, fetch_cached = True\<rparr>]"
    if "isActive (consumers ?W k)" "cacheRequests (props (consumers ?W k))"
       "src (props (consumers ?W k)) = fetch_src ?f" "inlineSource h (fetch_src ?f) = Inr []"
       "fetchThrows h (fetch_src ?f) = None" for k
  proof -
    have "cacheRequests (props (consumers ?W k)) \<longrightarrow> cacheStore ?W (src (props (consumers ?W k))) = None"
      using that(3) by (simp add: cache)
    from load_fresh [OF that(1) this, of h] show ?thesis
      using that by (simp add: Let_def request_fields)
  qed
  from cache calls errs others fresh show ?thesis by blast
qed

theorem cached_fetch_failure_witness:
  "0 < length (inflight pendingWorld) \<and> fetch_cached (inflight pendingWorld ! 0) \<and>
   requestResponse (Responded 404 ''text/html'' (Inr ''gone'')) = Inl (InlineSVGError ''Not Found'') \<and>
   cacheStore pendingWorld sampleURL \<noteq> None \<and>
   cacheStore (resolve testHost 0 (Responded 404 ''text/html'' (Inr ''gone'')) pendingWorld) sampleURL = None \<and>
   callbacks (trace (resolve testHost 0 (Responded 404 ''text/html'' (Inr ''gone'')) pendingWorld)) = [] \<and>
   errorCalls (trace (resolve testHost 0 (Responded 404 ''text/html'' (Inr ''gone'')) pendingWorld)) =
     [(0, InlineSVGError ''Not Found'')]"
proof -
  have r: "requestResponse (Responded 404 ''text/html'' (Inr ''gone'')) = Inl (InlineSVGError ''Not Found'')"
    by simp
  have t: "callbacks (trace pendingWorld) = []" "errorCalls (trace pendingWorld) = []"
    by code_simp+
  have i: "0 < length (inflight pendingWorld)" and f: "fetch_cached (inflight pendingWorld ! 0)"
    by (simp_all add: pendingWorld_inflight)
  from cached_fetch_failure [OF i f r, of testHost] show ?thesis
    using r i f by (simp add: pendingWorld_inflight pendingWorld_cache pendingWorld_consumers t testProps_def)
qed

section \<open>The SVG transformer\<close>

lemma js_includes_char: "js_includes v [c] = (c \<in> set v)"
  by (induction v) (auto simp add: js_includes_def startsWith_def split: option.splits)

lemma suffixAttribute_names [simp]: "map fst (suffixAttribute h r as) = map fst as"
  by (induction as) auto

lemma suffixAttribute_lookup:
  "map_of (suffixAttribute h r as) n =
     (if n = r then map_option (\<lambda>v. if isDataValue r v then v else v @ ''__'' @ h) (map_of as n)
      else map_of as n)"
  by (induction as) auto

lemma rewrite_lookup:
  "map_of (map (\<lambda>(n, v). (n, rewriteUrl base h v)) as) n = map_option (rewriteUrl base h) (map_of as n)"
  by (induction as) auto

lemma foldl_suffix_lookup:
  "distinct rs \<Longrightarrow>
     map_of (foldl (\<lambda>acc r. suffixAttribute h r acc) as rs) n =
       (if n \<in> set rs then map_option (\<lambda>v. if isDataValue n v then v else v @ ''__'' @ h) (map_of as n)
        else map_of as n)"
proof (induction rs arbitrary: as)
  case Nil
  then show ?case by simp
next
  case (Cons r rs)
  then show ?case by (auto simp add: suffixAttribute_lookup)
qed

lemma foldl_suffix_names:
  "map fst (foldl (\<lambda>acc r. suffixAttribute h r acc) as rs) = map fst as"
  by (induction rs arbitrary: as) simp_all

lemma distinct_replaceable: "distinct replaceableAttributes"
  by (simp add: replaceableAttributes_def)

lemma updateAttributes_lookup:
  "map_of (updateAttributes base h as) n =
     map_option (\<lambda>v. if n \<in> set replaceableAttributes \<and> \<not> isDataValue n (rewriteUrl base h v)
                      then rewriteUrl base h v @ ''__'' @ h else rewriteUrl base h v) (map_of as n)"
  by (cases "map_of as n")
     (simp_all add: updateAttributes_def foldl_suffix_lookup [OF distinct_replaceable] rewrite_lookup)

lemma updateAttributes_names: "map fst (updateAttributes base h as) = map fst as"
  by (simp add: updateAttributes_def foldl_suffix_names comp_def case_prod_unfold)

lemma updateAttributes_Nil: "updateAttributes base h [] = []"
  using updateAttributes_names [of base h "[]"] by simp

lemma updateChild_leaves:
  "filter isElement cs = [] \<Longrightarrow> map (updateChild u base h) cs = cs"
proof (induction cs)
  case Nil
  then show ?case by simp
next
  case (Cons d ds)
  then show ?case by (cases d) (simp_all split: if_splits)
qed

lemma updateChild_Element:
  "updateChild True base h (Element t as cs) =
     Element t (updateAttributes base h as) (map (updateChild True base h) cs)"
  by (cases "as = []") (simp_all add: Let_def updateChild_leaves updateAttributes_Nil)

lemma replaceable_cases:
  "n \<in> set replaceableAttributes =
     (n \<in> {''id'', ''xlink:role'', ''xlink:arcrole''} \<or> n \<in> {''href'', ''xlink:href''})"
  by (auto simp add: replaceableAttributes_def)

lemma isDataValue_iff:
  "isDataValue n v = (n \<in> {''href'', ''xlink:href''} \<and> v \<noteq> [] \<and> CHR ''#'' \<notin> set v)"
  by (simp add: isDataValue_def linkAttributes_def js_includes_char)

lemma link_not_plain:
  "n \<in> {''id'', ''xlink:role'', ''xlink:arcrole''} \<Longrightarrow> n \<notin> {''href'', ''xlink:href''}"
  by auto

text \<open>
  Claim C4, as amended. For a child element that the transformer processes with
  uniquification enabled, and the first attribute of a given name: the value of
  \<open>id\<close>, \<open>xlink:role\<close> or \<open>xlink:arcrole\<close> gets \<open>__\<close> and the hash appended (after the
  \<open>url(...)\<close> rewrite); the value of \<open>href\<close> or \<open>xlink:href\<close> is left without the suffix
  only when it is not empty and has no \<open>#\<close>, and gets the suffix when it has a \<open>#\<close> or is
  empty; an attribute of any other name gets no suffix.
\<close>

theorem suffix_rule:
  assumes "map_of as n = Some v"
  shows "updateChild True base h (Element t as cs) =
           Element t (updateAttributes base h as) (map (updateChild True base h) cs) \<and>
         map_of (updateAttributes base h as) n =
           Some (let v' = rewriteUrl base h v
                 in if n \<in> {''id'', ''xlink:role'', ''xlink:arcrole''} then v' @ ''__'' @ h
                    else if n \<in> {''href'', ''xlink:href''}
                    then (if v' \<noteq> [] \<and> CHR ''#'' \<notin> set v' then v' else v' @ ''__'' @ h)
                    else v')"
proof -
  let ?v = "rewriteUrl base h v"
  have "map_of (updateAttributes base h as) n =
          Some (if n \<in> set replaceableAttributes \<and> \<not> isDataValue n ?v then ?v @ ''__'' @ h else ?v)"
    using assms by (simp add: updateAttributes_lookup)
  also have "(if n \<in> set replaceableAttributes \<and> \<not> isDataValue n ?v then ?v @ ''__'' @ h else ?v) =
          (if n \<in> {''id'', ''xlink:role'', ''xlink:arcrole''} then ?v @ ''__'' @ h
           else if n \<in> {''href'', ''xlink:href''}
           then (if ?v \<noteq> [] \<and> CHR ''#'' \<notin> set ?v then ?v else ?v @ ''__'' @ h)
           else ?v)"
    using link_not_plain [of n] unfolding replaceable_cases isDataValue_iff by presburger
  finally show ?thesis
    by (simp only: updateChild_Element Let_def simp_thms)
qed

theorem suffix_rule_witness:
  "map_of [(''id'', ''x'')] ''id'' = Some ''x'' \<and>
   map_of (updateAttributes [] ''abc123'' [(''id'', ''x'')]) ''id'' = Some ''x__abc123'' \<and>
   map_of [(''href'', ''#x'')] ''href'' = Some ''#x'' \<and>
   map_of (updateAttributes [] ''abc123'' [(''href'', ''#x'')]) ''href'' = Some ''#x__abc123'' \<and>
   map_of [(''href'', ''a.png'')] ''href'' = Some ''a.png'' \<and>
   map_of (updateAttributes [] ''abc123'' [(''href'', ''a.png'')]) ''href'' = Some ''a.png''"
proof -
  have r: "rewriteUrl [] ''abc123'' ''x'' = ''x''" "rewriteUrl [] ''abc123'' ''#x'' = ''#x''"
    "rewriteUrl [] ''abc123'' ''a.png'' = ''a.png''"
    by (simp_all add: rewriteUrl_def startsWith_def)
  have a: "map_of [(''id'', ''x'')] ''id'' = Some ''x''"
    and b: "map_of [(''href'', ''#x'')] ''href'' = Some ''#x''"
    and c: "map_of [(''href'', ''a.png'')] ''href'' = Some ''a.png''"
    by simp_all
  from suffix_rule [OF a, of "[]" "''abc123''"] suffix_rule [OF b, of "[]" "''abc123''"]
    suffix_rule [OF c, of "[]" "''abc123''"]
  show ?thesis by (simp add: r Let_def)
qed

text \<open>
  The element \<open><use href="#x"/>\<close> does not stay as it is: with the hash \<open>abc123\<close> its
  \<open>href\<close> becomes \<open>#x__abc123\<close>.
\<close>

theorem fragment_href_counterexample:
  "updateSVGAttributes True [] ''abc123''
     (Element ''svg'' [] [Element ''rect'' [(''id'', ''x'')] [], Element ''use'' [(''href'', ''#x'')] []]) =
   Element ''svg'' [] [Element ''rect'' [(''id'', ''x__abc123'')] [],
                       Element ''use'' [(''href'', ''#x__abc123'')] []] \<and>
   updateSVGAttributes True [] ''abc123''
     (Element ''svg'' [] [Element ''rect'' [(''id'', ''x'')] [], Element ''use'' [(''href'', ''#x'')] []]) \<noteq>
   Element ''svg'' [] [Element ''rect'' [(''id'', ''x__abc123'')] [],
                       Element ''use'' [(''href'', ''#x'')] []]"
  by (simp add: updateAttributes_def replaceableAttributes_def rewriteUrl_def isDataValue_def
      linkAttributes_def js_includes_def startsWith_def)

text \<open>
  Claim C5, as amended. The transformer does not look for a suffix that is already
  there: an \<open>id\<close> value that ends with \<open>__\<close> and the hash, and holds no \<open>url(...)\<close>
  reference, gets \<open>__\<close> and the hash appended once more.
\<close>

theorem suffix_appended_again:
  assumes "map_of as ''id'' = Some (x @ ''__'' @ h)"
    and "matchUrl (x @ ''__'' @ h) = None"
  shows "updateChild True base h (Element t as cs) =
           Element t (updateAttributes base h as) (map (updateChild True base h) cs) \<and>
         map_of (updateAttributes base h as) ''id'' = Some (x @ ''__'' @ h @ ''__'' @ h)"
proof -
  have "rewriteUrl base h (x @ ''__'' @ h) = x @ ''__'' @ h"
    using assms(2) by (simp add: rewriteUrl_def)
  moreover have "''id'' \<in> set replaceableAttributes" "\<not> isDataValue ''id'' v" for v
    by (simp_all add: replaceableAttributes_def isDataValue_def linkAttributes_def)
  ultimately have "map_of (updateAttributes base h as) ''id'' = Some (x @ ''__'' @ h @ ''__'' @ h)"
    using assms(1) by (simp add: updateAttributes_lookup)
  with updateChild_Element [of base h t as cs] show ?thesis
    by (rule conjI)
qed

theorem suffix_appended_again_witness:
  "map_of [(''id'', ''x__abc123'')] ''id'' = Some (''x'' @ ''__'' @ ''abc123'') \<and>
   matchUrl (''x'' @ ''__'' @ ''abc123'') = None \<and>
   map_of (updateAttributes [] ''abc123'' [(''id'', ''x__abc123'')]) ''id'' = Some ''x__abc123__abc123''"
proof -
  have a: "map_of [(''id'', ''x__abc123'')] ''id'' = Some (''x'' @ ''__'' @ ''abc123'')"
    by simp
  have b: "matchUrl (''x'' @ ''__'' @ ''abc123'') = None"
    by (simp add: startsWith_def)
  from suffix_appended_again [OF a b, of "[]"] show ?thesis
    using a b by simp
qed

text \<open>
  Transforming \<open><rect id="x__abc123"/>\<close> with the hash \<open>abc123\<close> does not leave the value
  unchanged: it becomes \<open>x__abc123__abc123\<close>.
\<close>

theorem idempotence_counterexample:
  "updateSVGAttributes True [] ''abc123''
     (Element ''svg'' [] [Element ''rect'' [(''id'', ''x__abc123'')] []]) =
   Element ''svg'' [] [Element ''rect'' [(''id'', ''x__abc123__abc123'')] []] \<and>
   updateSVGAttributes True [] ''abc123''
     (Element ''svg'' [] [Element ''rect'' [(''id'', ''x__abc123'')] []]) \<noteq>
   Element ''svg'' [] [Element ''rect'' [(''id'', ''x__abc123'')] []]"
  by (simp add: updateAttributes_def replaceableAttributes_def rewriteUrl_def isDataValue_def
      linkAttributes_def js_includes_def startsWith_def)

lemma mounting_fields:
  "isActive (consumers (mounting s) 0)"
  "props (consumers (mounting s) 0) = testProps s"
  "hash (consumers (mounting s) 0) = ''abc123''"
  "cacheStore (mounting s) = Map.empty"
  "inflight (mounting s) = []"
  "trace (mounting s) = []"
  by (simp_all add: mounting_def construct_def initialWorld_def Let_def testProps_def)

lemma componentDidMount_mounting:
  "s \<noteq> [] \<Longrightarrow>
     componentDidMount testHost 0 (construct 0 (testProps s) ''r0'' initialWorld) = load testHost 0 (mounting s)"
  by (simp add: componentDidMount_def mounting_def Let_def testHost_def construct_def testProps_def)


section \<open>Failures and their reports\<close>

text \<open>
  Claim C6. A conversion failure is reported twice. The response is read, its text
  \<open><div/>\<close> parses to a node that is not an \<open>svg\<close> root, \<open>getNode\<close> hands the error to
  \<open>handleError\<close> and returns \<open>undefined\<close>, and \<open>getElement\<close> goes on to convert
  \<open>undefined\<close>, fails again and calls \<open>handleError\<close> a second time: the status \<open>FAILED\<close>
  is written twice and \<open>onError\<close> is called twice, with two different errors.
\<close>

theorem conversion_failure_reported_twice:
  "statusWrites (trace (run testHost initialWorld
      [Construct 0 (testProps ''https://x/a.svg'') ''r0'', Mount 0,
       Resolve 0 (Responded 200 ''image/svg+xml'' (Inr ''<div/>''))])) =
     [(0, LOADING), (0, LOADED), (0, FAILED), (0, FAILED)] \<and>
   errorCalls (trace (run testHost initialWorld
      [Construct 0 (testProps ''https://x/a.svg'') ''r0'', Mount 0,
       Resolve 0 (Responded 200 ''image/svg+xml'' (Inr ''<div/>''))])) =
     [(0, InlineSVGError ''Could not convert the src to a DOM Node''),
      (0, InlineSVGError ''Could not convert the src to a React element'')]"
  by code_simp

text \<open>
  The same on every host, whatever makes the \<open>try\<close> block of \<open>getNode\<close> throw, unless
  \<open>convert(undefined)\<close> were a valid React element: when it is \<open>null\<close> or an exception,
  \<open>getElement\<close> reports a second error.
\<close>

lemma getNode_failure_handled_twice:
  assumes "isActive (consumers w c)"
    and "getNodeTry h (props (consumers w c)) (hash (consumers w c)) text = Inl e"
    and "\<forall>el. convertNode h None \<noteq> Inr (Some el)"
  shows "errorCalls (trace (handleLoad h c text w)) =
           errorCalls (trace w) @
             (if onError (props (consumers w c))
              then [(c, e),
                    (c, InlineSVGError (case convertNode h None of
                            Inl e' \<Rightarrow> message e'
                          | Inr n \<Rightarrow> ''Could not convert the src to a React element''))]
              else [])"
    and "statusWrites (trace (handleLoad h c text w)) =
           statusWrites (trace w) @
             [(c, LOADED),
              (c, if message e = ''Browser does not support SVG'' then UNSUPPORTED else FAILED),
              (c, case convertNode h None of
                    Inl e' \<Rightarrow> if message e' = ''Browser does not support SVG'' then UNSUPPORTED else FAILED
                  | Inr n \<Rightarrow> FAILED)]"
  using assms
  by (simp_all add: handleLoad_def getElement_def getNode_def Let_def split: sum.splits option.splits)

text \<open>
  The other failure paths report once: a chain that rejects, and a node that converts
  to no valid React element.
\<close>

lemma requestCatch_statusWrites:
  "statusWrites (trace (requestCatch h f e w)) =
     statusWrites (trace w) @
       (if isActive (consumers w (requester f))
        then [(requester f, if message e = ''Browser does not support SVG'' then UNSUPPORTED else FAILED)]
        else [])"
  by (simp add: requestCatch_def)

lemma request_failure_reported_once:
  assumes "i < length (inflight w)" and "requestResponse outcome = Inl e"
    and "isActive (consumers w (requester (inflight w ! i)))"
    and "onError (props (consumers w (requester (inflight w ! i))))"
  shows "statusWrites (trace (resolve h i outcome w)) =
           statusWrites (trace w) @
             [(requester (inflight w ! i),
               if message e = ''Browser does not support SVG'' then UNSUPPORTED else FAILED)]"
    and "errorCalls (trace (resolve h i outcome w)) =
           errorCalls (trace w) @ [(requester (inflight w ! i), e)]"
  using assms by (simp_all add: resolve_def Let_def requestCatch_fields requestCatch_statusWrites)

lemma element_failure_reported_once:
  assumes "isActive (consumers w c)" and "onError (props (consumers w c))"
    and "getNodeTry h (props (consumers w c)) (hash (consumers w c)) text = Inr svg"
    and "convertNode h (Some svg) = Inr None"
  shows "statusWrites (trace (handleLoad h c text w)) =
           statusWrites (trace w) @ [(c, LOADED), (c, FAILED)]"
    and "errorCalls (trace (handleLoad h c text w)) =
           errorCalls (trace w) @ [(c, InlineSVGError ''Could not convert the src to a React element'')]"
  using assms by (simp_all add: handleLoad_def getElement_def getNode_def Let_def)

lemma handleLoad_ready:
  assumes "isActive (consumers w c)"
    and "getNodeTry h (props (consumers w c)) (hash (consumers w c)) text = Inr svg"
    and "convertNode h (Some svg) = Inr (Some el)"
  shows "state (consumers (handleLoad h c text w) c) =
           (state (consumers w c))\<lparr>content := text, status := READY, element := Some el\<rparr>"
  using assms by (simp add: handleLoad_def getElement_def getNode_def Let_def)

section \<open>The keys of the cache\<close>

lemma remoteKeys_same [simp]:
  "remoteKeys h (handleError h c e w) = remoteKeys h w"
  "remoteKeys h (notifyLoad h c st w) = remoteKeys h w"
  "remoteKeys h (w\<lparr>consumers := cs\<rparr>) = remoteKeys h w"
  by (simp_all add: remoteKeys_def)

lemma load_dom:
  "dom (cacheStore (load h c w)) \<subseteq> dom (cacheStore w) \<union> {s. inlineSource h s = Inr []}"
proof (cases "isActive (consumers w c)")
  case False
  then show ?thesis by (simp add: load_inactive)
next
  case active: True
  let ?p = "props (consumers w c)"
  show ?thesis
  proof (cases "cacheRequests ?p \<and> cacheStore w (src ?p) \<noteq> None")
    case True
    then obtain entry where e: "cacheStore w (src ?p) = Some entry" by blast
    from True have "cacheRequests ?p" by simp
    from load_cached [OF active this e, of h] e show ?thesis
      by (auto simp add: Let_def)
  next
    case False
    then have "cacheRequests ?p \<longrightarrow> cacheStore w (src ?p) = None" by simp
    from load_fresh [OF active this, of h] show ?thesis
      by (cases "inlineSource h (src ?p)") (auto simp add: Let_def request_fields)
  qed
qed

lemma requestCatch_dom: "dom (cacheStore (requestCatch h f e w)) \<subseteq> dom (cacheStore w)"
  by (auto simp add: requestCatch_fields)

lemma requestThen_dom: "dom (cacheStore (requestThen h f x w)) \<subseteq> dom (cacheStore w)"
  by (cases "cacheStore w (fetch_src f)") (auto simp add: requestThen_fields)

lemma resolve_dom: "dom (cacheStore (resolve h i outcome w)) \<subseteq> dom (cacheStore w)"
proof (cases "i < length (inflight w)")
  case False
  then show ?thesis by (simp add: resolve_def)
next
  case True
  let ?w0 = "w\<lparr>inflight := take i (inflight w) @ drop (Suc i) (inflight w)\<rparr>"
  show ?thesis
  proof (cases "requestResponse outcome")
    case (Inl e)
    with True requestCatch_dom [of h "inflight w ! i" e ?w0] show ?thesis
      by (simp add: resolve_def Let_def)
  next
    case (Inr x)
    with True requestThen_dom [of h "inflight w ! i" x ?w0] show ?thesis
      by (simp add: resolve_def Let_def)
  qed
qed

lemma remoteKeys_load: "remoteKeys h w \<Longrightarrow> remoteKeys h (load h c w)"
  using load_dom [of h c w] unfolding remoteKeys_def by blast

lemma remoteKeys_resolve: "remoteKeys h w \<Longrightarrow> remoteKeys h (resolve h i outcome w)"
  using resolve_dom [of h i outcome w] unfolding remoteKeys_def by blast

lemma remoteKeys_step: "remoteKeys h w \<Longrightarrow> remoteKeys h (step h w a)"
proof (cases a)
  case (Construct c p rnd)
  assume "remoteKeys h w"
  then show ?thesis using Construct by (simp add: construct_def)
next
  case (Mount c)
  assume r: "remoteKeys h w"
  let ?w1 = "w\<lparr>consumers := (consumers w)(c := (consumers w c)\<lparr>isActive := True\<rparr>)\<rparr>"
  have "remoteKeys h ?w1" using r by simp
  from this remoteKeys_load [OF this] show ?thesis
    using Mount by (simp add: componentDidMount_def Let_def)
next
  case (SetProps c p)
  assume r: "remoteKeys h w"
  let ?w1 = "notifyLoad h c (status (state (consumers w c)))
               (w\<lparr>consumers := (consumers w)(c := (consumers w c)\<lparr>props := p\<rparr>)\<rparr>)"
  have "remoteKeys h ?w1" using r by simp
  from this remoteKeys_load [OF this] r show ?thesis
    using SetProps by (simp add: componentDidUpdate_def Let_def)
next
  case (Unmount c)
  assume "remoteKeys h w"
  then show ?thesis using Unmount by (simp add: componentWillUnmount_def)
next
  case (Resolve i outcome)
  assume "remoteKeys h w"
  then show ?thesis using Resolve by (simp add: remoteKeys_resolve)
qed

lemma remoteKeys_foldl: "remoteKeys h w \<Longrightarrow> remoteKeys h (foldl (step h) w acts)"
  by (induction acts arbitrary: w) (simp_all add: remoteKeys_step)

lemma remoteKeys_run: "remoteKeys h (run h initialWorld acts)"
  unfolding run_def by (rule remoteKeys_foldl) (simp add: remoteKeys_def initialWorld_def)

section \<open>Data URIs\<close>

lemma inlineWorld_fields:
  "isActive (consumers inlineWorld 0)"
  "props (consumers inlineWorld 0) = testProps ''data:image/svg+xml,<svg/>''"
  "hash (consumers inlineWorld 0) = ''abc123''"
  by (simp_all add: inlineWorld_def run_def construct_def componentDidMount_def testProps_def
      initialWorld_def testHost_def load_def Let_def emptyConsumer_def inlineSource_def
      matchDataURI_def startsWith_def endsWith_def)

lemma matchDataURI_examples:
  "matchDataURI ''data:image/svg+xml,<svg/>'' = Some (False, ''<svg/>'')"
  "matchDataURI ''data:image/svg+xml,'' = Some (False, [])"
  "matchDataURI ''data:image/svg+xml;base64,'' = Some (True, [])"
  by (simp_all add: matchDataURI_def startsWith_def endsWith_def)

text \<open>
  Claim C7, as amended. In a world that a run has reached, when an active instance whose
  source matches the data-URI pattern calls \<open>load\<close>, and the decoder that the pattern
  selects (\<open>atob\<close> when \<open>;base64\<close> is declared, \<open>decodeURIComponent\<close> otherwise) returns
  a text that is not empty, then \<open>load\<close> passes this text to \<open>handleLoad\<close>, starts no
  request and leaves the cache as it is; if the converters accept the text the instance
  is \<open>READY\<close>. The source \<open>data:image/svg+xml,<svg/>\<close> has the payload \<open><svg/>\<close> and
  selects \<open>decodeURIComponent\<close>.
\<close>

theorem data_uri_decoded_inline:
  assumes "w = run h initialWorld acts"
    and "isActive (consumers w c)"
    and "matchDataURI (src (props (consumers w c))) = Some (base64, payload)"
    and "(if base64 then atob h payload else decodeURIComponent h payload) = Inr text"
    and "text \<noteq> []"
  shows "load h c w =
           handleLoad h c text
             (setState h c (\<lambda>s. s\<lparr>content := [], element := None, status := LOADING\<rparr>) w) \<and>
         inflight (load h c w) = inflight w \<and>
         cacheStore (load h c w) = cacheStore w \<and>
         fetches (trace (load h c w)) = fetches (trace w) \<and>
         callbacks (trace (load h c w)) = callbacks (trace w) @ [(c, text)] \<and>
         (\<forall>svg el. getNodeTry h (props (consumers w c)) (hash (consumers w c)) text = Inr svg \<and>
                   convertNode h (Some svg) = Inr (Some el) \<longrightarrow>
                   status (state (consumers (load h c w) c)) = READY \<and>
                   content (state (consumers (load h c w) c)) = text) \<and>
         matchDataURI ''data:image/svg+xml,<svg/>'' = Some (False, ''<svg/>'')"
proof -
  let ?s = "src (props (consumers w c))"
  let ?w1 = "setState h c (\<lambda>s. s\<lparr>content := [], element := None, status := LOADING\<rparr>) w"
  have inl: "inlineSource h ?s = Inr text"
    using assms(3,4) by (simp add: inlineSource_def)
  have rk: "remoteKeys h w"
    using assms(1) by (simp add: remoteKeys_run)
  have "?s \<notin> dom (cacheStore w)"
  proof
    assume "?s \<in> dom (cacheStore w)"
    with rk have "inlineSource h ?s = Inr []"
      unfolding remoteKeys_def by blast
    with inl assms(5) show False by simp
  qed
  then have "cacheStore w ?s = None"
    by (simp add: domIff)
  then have "cacheRequests (props (consumers w c)) \<longrightarrow> cacheStore w ?s = None"
    by simp
  from load_fresh [OF assms(2) this, of h] have eq: "load h c w = handleLoad h c text ?w1"
    using inl assms(5) by (simp add: Let_def)
  have ready: "status (state (consumers (load h c w) c)) = READY \<and>
               content (state (consumers (load h c w) c)) = text"
    if "getNodeTry h (props (consumers w c)) (hash (consumers w c)) text = Inr svg"
       "convertNode h (Some svg) = Inr (Some el)" for svg el
  proof -
    have "isActive (consumers ?w1 c)" using assms(2) by simp
    moreover have "getNodeTry h (props (consumers ?w1 c)) (hash (consumers ?w1 c)) text = Inr svg"
      using that(1) by simp
    ultimately show ?thesis
      using handleLoad_ready [of "?w1" c h "text" svg el] that(2) by (simp add: eq)
  qed
  from eq ready show ?thesis
    by (simp add: matchDataURI_examples)
qed

theorem data_uri_decoded_inline_witness:
  "inlineWorld = run testHost initialWorld
     [Construct 0 (testProps ''data:image/svg+xml,<svg/>'') ''r0'', Mount 0] \<and>
   isActive (consumers inlineWorld 0) \<and>
   matchDataURI (src (props (consumers inlineWorld 0))) = Some (False, ''<svg/>'') \<and>
   decodeURIComponent testHost ''<svg/>'' = Inr ''<svg/>'' \<and>
   status (state (consumers inlineWorld 0)) = READY \<and>
   fetches (trace inlineWorld) = [] \<and>
   inflight (load testHost 0 inlineWorld) = [] \<and>
   cacheStore (load testHost 0 inlineWorld) = Map.empty \<and>
   fetches (trace (load testHost 0 inlineWorld)) = [] \<and>
   status (state (consumers (load testHost 0 inlineWorld) 0)) = READY"
proof -
  have a: "isActive (consumers inlineWorld 0)"
    by (simp add: inlineWorld_fields)
  have m: "matchDataURI (src (props (consumers inlineWorld 0))) = Some (False, ''<svg/>'')"
    by (simp add: inlineWorld_fields testProps_def matchDataURI_examples)
  have d: "(if False then atob testHost ''<svg/>'' else decodeURIComponent testHost ''<svg/>'') = Inr ''<svg/>''"
    by (simp add: testHost_def)
  have n: "''<svg/>'' \<noteq> []" by simp
  have g: "getNodeTry testHost (props (consumers inlineWorld 0)) (hash (consumers inlineWorld 0)) ''<svg/>'' =
             Inr (Element ''svg'' [] [])"
    by (simp add: inlineWorld_fields getNodeTry_def processSVG_def testProps_def testHost_def)
  have e: "convertNode testHost (Some (Element ''svg'' [] [])) = Inr (Some (ReactElement (Element ''svg'' [] [])))"
    by (simp add: testHost_def)
  have before: "status (state (consumers inlineWorld 0)) = READY" "fetches (trace inlineWorld) = []"
    "inflight inlineWorld = []" "cacheStore inlineWorld = Map.empty"
    by (simp_all add: inlineWorld_def run_def construct_def componentDidMount_def testProps_def
      initialWorld_def testHost_def load_def Let_def emptyConsumer_def inlineSource_def
      matchDataURI_def startsWith_def endsWith_def handleLoad_def getElement_def getNode_def
      getNodeTry_def processSVG_def)
  note t = data_uri_decoded_inline [OF inlineWorld_def a m d n]
  have r1: "inflight (load testHost 0 inlineWorld) = inflight inlineWorld"
    and r2: "cacheStore (load testHost 0 inlineWorld) = cacheStore inlineWorld"
    and r3: "fetches (trace (load testHost 0 inlineWorld)) = fetches (trace inlineWorld)"
    using t by blast+
  have r4: "status (state (consumers (load testHost 0 inlineWorld) 0)) = READY"
    using t g e by blast
  show ?thesis
    using a m d before r1 r2 r3 r4 by (simp add: inlineWorld_def [symmetric])
qed

text \<open>
  The source \<open>data:image/svg+xml,\<close> matches the pattern, and mounting an instance with it
  starts a request for it and creates a cache entry.
\<close>

theorem data_uri_counterexample:
  "matchDataURI ''data:image/svg+xml,'' = Some (False, []) \<and>
   fetches (trace (run testHost initialWorld
     [Construct 0 (testProps ''data:image/svg+xml,'') ''r0'', Mount 0])) =
     [(0, ''data:image/svg+xml,'')] \<and>
   callbacks (trace (run testHost initialWorld
     [Construct 0 (testProps ''data:image/svg+xml,'') ''r0'', Mount 0])) = [] \<and>
   cacheStore (run testHost initialWorld
     [Construct 0 (testProps ''data:image/svg+xml,'') ''r0'', Mount 0]) ''data:image/svg+xml,'' =
     Some \<lparr>cache_content = [], cache_queue = [], cache_status = LOADING\<rparr>"
  by (simp add: run_def construct_def componentDidMount_def testProps_def
      initialWorld_def testHost_def load_def Let_def emptyConsumer_def inlineSource_def
      matchDataURI_def startsWith_def endsWith_def request_def)

text \<open>
  Claim C10. When an active instance whose source matches the data-URI pattern calls
  \<open>load\<close>, no entry of the cache stands in the way, and the decoder returns the empty text,
  then \<open>load\<close> calls \<open>request\<close>: no \<open>handleLoad\<close> is called, and unless the call of
  \<open>fetch\<close> throws, a request for the source string is pending afterwards. The sources
  \<open>data:image/svg+xml,\<close> and \<open>data:image/svg+xml;base64,\<close> match the pattern with an empty
  payload.
\<close>

theorem empty_data_uri_requested:
  assumes "isActive (consumers w c)"
    and "cacheRequests (props (consumers w c)) \<longrightarrow> cacheStore w (src (props (consumers w c))) = None"
    and "matchDataURI (src (props (consumers w c))) = Some (base64, payload)"
    and "(if base64 then atob h payload else decodeURIComponent h payload) = Inr []"
  shows "load h c w =
           request h c (setState h c (\<lambda>s. s\<lparr>content := [], element := None, status := LOADING\<rparr>) w) \<and>
         callbacks (trace (load h c w)) = callbacks (trace w) \<and>
         (fetchThrows h (src (props (consumers w c))) = None \<longrightarrow>
            inflight (load h c w) =
              inflight w @ [\<lparr>requester = c, fetch_src = src (props (consumers w c)),
                             fetch_cached = cacheRequests (props (consumers w c))\<rparr>]) \<and>
         matchDataURI ''data:image/svg+xml,'' = Some (False, []) \<and>
         matchDataURI ''data:image/svg+xml;base64,'' = Some (True, [])"
proof -
  have inl: "inlineSource h (src (props (consumers w c))) = Inr []"
    using assms(3,4) by (simp add: inlineSource_def)
  from load_fresh [OF assms(1,2), of h] have eq: "load h c w =
      request h c (setState h c (\<lambda>s. s\<lparr>content := [], element := None, status := LOADING\<rparr>) w)"
    using inl by (simp add: Let_def)
  then show ?thesis
    by (simp add: request_fields matchDataURI_examples)
qed

theorem empty_data_uri_requested_witness:
  "isActive (consumers (mounting ''data:image/svg+xml,'') 0) \<and>
   cacheStore (mounting ''data:image/svg+xml,'') ''data:image/svg+xml,'' = None \<and>
   matchDataURI (src (props (consumers (mounting ''data:image/svg+xml,'') 0))) = Some (False, []) \<and>
   decodeURIComponent testHost [] = Inr [] \<and>
   callbacks (trace (load testHost 0 (mounting ''data:image/svg+xml,''))) = [] \<and>
   inflight (load testHost 0 (mounting ''data:image/svg+xml,'')) =
     [\<lparr>requester = 0, fetch_src = ''data:image/svg+xml,'', fetch_cached = True\<rparr>] \<and>
   isActive (consumers (mounting ''data:image/svg+xml;base64,'') 0) \<and>
   matchDataURI (src (props (consumers (mounting ''data:image/svg+xml;base64,'') 0))) = Some (True, []) \<and>
   atob testHost [] = Inr [] \<and>
   inflight (load testHost 0 (mounting ''data:image/svg+xml;base64,'')) =
     [\<lparr>requester = 0, fetch_src = ''data:image/svg+xml;base64,'', fetch_cached = True\<rparr>]"
proof -
  let ?u = "''data:image/svg+xml,''" and ?b = "''data:image/svg+xml;base64,''"
  have a: "isActive (consumers (mounting s) 0)" for s
    by (simp add: mounting_fields)
  have c: "cacheRequests (props (consumers (mounting s) 0)) \<longrightarrow>
           cacheStore (mounting s) (src (props (consumers (mounting s) 0))) = None" for s
    by (simp add: mounting_fields)
  have m: "matchDataURI (src (props (consumers (mounting ?u) 0))) = Some (False, [])"
    "matchDataURI (src (props (consumers (mounting ?b) 0))) = Some (True, [])"
    by (simp_all add: mounting_fields testProps_def matchDataURI_examples)
  have d: "(if False then atob testHost [] else decodeURIComponent testHost []) = Inr []"
    "(if True then atob testHost [] else decodeURIComponent testHost []) = Inr []"
    by (simp_all add: testHost_def)
  have f: "fetchThrows testHost s = None" for s
    by (simp add: testHost_def)
  note t1 = empty_data_uri_requested [OF a c m(1) d(1)]
    and t2 = empty_data_uri_requested [OF a c m(2) d(2)]
  have r1: "callbacks (trace (load testHost 0 (mounting ?u))) = callbacks (trace (mounting ?u))"
    using t1 by blast
  have r2: "inflight (load testHost 0 (mounting ?u)) =
      inflight (mounting ?u) @
        [\<lparr>requester = 0, fetch_src = src (props (consumers (mounting ?u) 0)),
          fetch_cached = cacheRequests (props (consumers (mounting ?u) 0))\<rparr>]"
    by (rule t1 [THEN conjunct2, THEN conjunct2, THEN conjunct1, rule_format, OF f])
  have r3: "inflight (load testHost 0 (mounting ?b)) =
      inflight (mounting ?b) @
        [\<lparr>requester = 0, fetch_src = src (props (consumers (mounting ?b) 0)),
          fetch_cached = cacheRequests (props (consumers (mounting ?b) 0))\<rparr>]"
    by (rule t2 [THEN conjunct2, THEN conjunct2, THEN conjunct1, rule_format, OF f])
  show ?thesis
    using a m d r1 r2 r3 by (simp add: mounting_fields testProps_def)
qed

section \<open>Teardown\<close>

lemma requestCatch_frozen:
  "\<not> isActive (consumers w c) \<Longrightarrow> consumers (requestCatch h f e w) c = consumers w c"
  by (cases "requester f = c") (simp_all add: requestCatch_def)

lemma requestThen_frozen:
  assumes "\<not> isActive (consumers w c)"
  shows "consumers (requestThen h f x w) c = consumers w c"
proof -
  let ?w1 = "handleLoad h (requester f) x w"
  have 1: "consumers ?w1 c = consumers w c"
    using assms by (rule handleLoad_frozen)
  have 2: "consumers (foldl (\<lambda>v cb. handleLoad h cb x v) (?w1\<lparr>cacheStore := m\<rparr>) q) c = consumers w c" for m q
    using drain_frozen [of "?w1\<lparr>cacheStore := m\<rparr>" c h x q] assms 1 by simp
  show ?thesis
    by (simp add: requestThen_def Let_def 1 2 split: option.splits)
qed

lemma resolve_frozen:
  "\<not> isActive (consumers w c) \<Longrightarrow> consumers (resolve h i outcome w) c = consumers w c"
  by (simp add: resolve_def Let_def requestCatch_frozen requestThen_frozen split: sum.splits)

lemma inactive_update [simp]: "\<not> isActive k \<Longrightarrow> k\<lparr>isActive := False\<rparr> = k"
  by (cases k) simp

lemma step_frozen:
  assumes "\<not> isActive (consumers w c)" and "\<not> revives c a"
  shows "consumers (step h w a) c = consumers w c"
proof (cases a)
  case (Construct k p rnd)
  with assms(2) show ?thesis by (simp add: construct_def)
next
  case (Mount k)
  with assms(2) have k: "k \<noteq> c" by simp
  let ?w1 = "w\<lparr>consumers := (consumers w)(k := (consumers w k)\<lparr>isActive := True\<rparr>)\<rparr>"
  have "\<not> isActive (consumers ?w1 c)" and "consumers ?w1 c = consumers w c"
    using assms(1) k by simp_all
  then show ?thesis
    using Mount load_frozen [of ?w1 c h k] handleError_frozen [of ?w1 c h k]
    by (simp add: componentDidMount_def Let_def del: handleError_fields)
next
  case (SetProps k p)
  show ?thesis
  proof (cases "k = c")
    case True
    with assms(1) SetProps show ?thesis by simp
  next
    case False
    let ?w1 = "notifyLoad h k (status (state (consumers w k)))
                 (w\<lparr>consumers := (consumers w)(k := (consumers w k)\<lparr>props := p\<rparr>)\<rparr>)"
    have "\<not> isActive (consumers ?w1 c)" and "consumers ?w1 c = consumers w c"
      using assms(1) False by simp_all
    then show ?thesis
      using SetProps load_frozen [of ?w1 c h k] handleError_frozen [of ?w1 c h k]
      by (simp add: componentDidUpdate_def Let_def del: handleError_fields)
  qed
next
  case (Unmount k)
  with assms(1) show ?thesis by (simp add: componentWillUnmount_def)
next
  case (Resolve i outcome)
  with assms(1) show ?thesis by (simp add: resolve_frozen)
qed

lemma foldl_frozen:
  "\<not> isActive (consumers w c) \<Longrightarrow> \<forall>a \<in> set acts. \<not> revives c a \<Longrightarrow>
     consumers (foldl (step h) w acts) c = consumers w c"
proof (induction acts arbitrary: w)
  case Nil
  then show ?case by simp
next
  case (Cons a acts)
  have s: "consumers (step h w a) c = consumers w c"
    using Cons.prems by (simp add: step_frozen)
  then have "\<not> isActive (consumers (step h w a) c)"
    using Cons.prems(1) by simp
  from Cons.IH [OF this] Cons.prems(2) s show ?case by simp
qed

lemma agreeExcept_handleLoad:
  assumes "agreeExcept c w w'"
  shows "agreeExcept c (handleLoad h k x w) (handleLoad h k x w')"
proof -
  have "consumers (handleLoad h k x w) j = consumers (handleLoad h k x w') j" if "j \<noteq> c" for j
  proof (cases "j = k")
    case True
    with that assms have "consumers w k = consumers w' k" by (simp add: agreeExcept_def)
    then have "consumers (handleLoad h k x w) k = consumers (handleLoad h k x w') k"
      by (rule handleLoad_local)
    then show ?thesis using True by simp
  next
    case False
    with that assms show ?thesis by (simp add: handleLoad_other agreeExcept_def)
  qed
  with assms show ?thesis by (simp add: agreeExcept_def)
qed

lemma agreeExcept_handleError:
  assumes "agreeExcept c w w'"
  shows "agreeExcept c (handleError h k e w) (handleError h k e w')"
proof -
  have "consumers (handleError h k e w) j = consumers (handleError h k e w') j" if "j \<noteq> c" for j
  proof (cases "j = k")
    case True
    with that assms have "consumers w k = consumers w' k" by (simp add: agreeExcept_def)
    then show ?thesis using True by simp
  next
    case False
    with that assms show ?thesis by (simp add: agreeExcept_def)
  qed
  with assms show ?thesis by (simp add: agreeExcept_def)
qed

lemma agreeExcept_cache:
  "agreeExcept c w w' \<Longrightarrow> agreeExcept c (w\<lparr>cacheStore := m\<rparr>) (w'\<lparr>cacheStore := m\<rparr>)"
  by (simp add: agreeExcept_def)

lemma agreeExcept_drain:
  "agreeExcept c w w' \<Longrightarrow>
     agreeExcept c (foldl (\<lambda>v cb. handleLoad h cb x v) w q) (foldl (\<lambda>v cb. handleLoad h cb x v) w' q)"
  by (induction q arbitrary: w w') (simp_all add: agreeExcept_handleLoad)

lemma agreeExcept_requestCatch:
  assumes "agreeExcept c w w'"
  shows "agreeExcept c (requestCatch h f e w) (requestCatch h f e w')"
proof -
  have cs: "cacheStore w = cacheStore w'" using assms by (simp add: agreeExcept_def)
  have "agreeExcept c (w\<lparr>cacheStore := (cacheStore w)(fetch_src f := None)\<rparr>)
          (w'\<lparr>cacheStore := (cacheStore w)(fetch_src f := None)\<rparr>)"
    using assms by (rule agreeExcept_cache)
  from agreeExcept_handleError [OF this] agreeExcept_handleError [OF assms] cs show ?thesis
    by (simp add: requestCatch_def)
qed

lemma agreeExcept_requestThen:
  assumes "agreeExcept c w w'"
  shows "agreeExcept c (requestThen h f x w) (requestThen h f x w')"
proof -
  let ?w1 = "handleLoad h (requester f) x w" and ?w1' = "handleLoad h (requester f) x w'"
  have 1: "agreeExcept c ?w1 ?w1'"
    using assms by (rule agreeExcept_handleLoad)
  then have cs: "cacheStore ?w1 = cacheStore ?w1'" by (simp add: agreeExcept_def)
  show ?thesis
  proof (cases "fetch_cached f")
    case False
    with 1 show ?thesis by (simp add: requestThen_def Let_def)
  next
    case True
    show ?thesis
    proof (cases "cacheStore ?w1 (fetch_src f)")
      case None
      with True 1 cs show ?thesis by (simp add: requestThen_def Let_def)
    next
      case (Some entry)
      let ?m = "(cacheStore ?w1)(fetch_src f \<mapsto> entry\<lparr>cache_content := x, cache_status := LOADED\<rparr>)"
      let ?q = "cache_queue (entry\<lparr>cache_content := x, cache_status := LOADED\<rparr>)"
      have 2: "agreeExcept c (?w1\<lparr>cacheStore := ?m\<rparr>) (?w1'\<lparr>cacheStore := ?m\<rparr>)"
        using 1 by (rule agreeExcept_cache)
      have 3: "agreeExcept c (foldl (\<lambda>v cb. handleLoad h cb x v) (?w1\<lparr>cacheStore := ?m\<rparr>) ?q)
                 (foldl (\<lambda>v cb. handleLoad h cb x v) (?w1'\<lparr>cacheStore := ?m\<rparr>) ?q)"
        using 2 by (rule agreeExcept_drain)
      from agreeExcept_cache [OF 3] True Some cs show ?thesis
        by (simp add: requestThen_def Let_def)
    qed
  qed
qed

lemma agreeExcept_resolve:
  assumes "agreeExcept c w w'"
  shows "agreeExcept c (resolve h i outcome w) (resolve h i outcome w')"
proof -
  have i: "inflight w = inflight w'" using assms by (simp add: agreeExcept_def)
  let ?w0 = "w\<lparr>inflight := take i (inflight w) @ drop (Suc i) (inflight w)\<rparr>"
  let ?w0' = "w'\<lparr>inflight := take i (inflight w) @ drop (Suc i) (inflight w)\<rparr>"
  have 0: "agreeExcept c ?w0 ?w0'" using assms by (simp add: agreeExcept_def)
  show ?thesis
    using assms agreeExcept_requestCatch [OF 0] agreeExcept_requestThen [OF 0]
    by (simp add: resolve_def Let_def i [symmetric] split: sum.splits)
qed

lemma agreeExcept_completions:
  "agreeExcept c w w' \<Longrightarrow> \<forall>a \<in> set acts. isCompletion a \<Longrightarrow>
     agreeExcept c (foldl (step h) w acts) (foldl (step h) w' acts)"
proof (induction acts arbitrary: w w')
  case Nil
  then show ?case by simp
next
  case (Cons a acts)
  from Cons.prems(2) obtain i outcome where a: "a = Resolve i outcome"
    by (cases a) simp_all
  have "agreeExcept c (step h w a) (step h w' a)"
    using Cons.prems(1) a by (simp add: agreeExcept_resolve)
  from Cons.IH [OF this] Cons.prems(2) show ?case by simp
qed

lemma agreeExcept_unmount: "agreeExcept c (componentWillUnmount c w) w"
  by (simp add: agreeExcept_def componentWillUnmount_def)

text \<open>
  Claim C9. An instance whose \<open>isActive\<close> is false is not changed by any run in which it is
  not constructed or mounted again: whatever chains resolve, whatever queues are drained
  and whatever errors are handled, its state, properties and flag stay as they are.
  \<open>handleLoad\<close> and \<open>handleError\<close> of such an instance change no instance at all.
  \<open>componentWillUnmount\<close> makes the flag false, and the completions that follow treat the
  cache, the pending requests and every other instance exactly as they would have
  without the teardown.
\<close>

theorem teardown_blocks_completions:
  assumes "\<not> isActive (consumers w c)"
    and "\<forall>a \<in> set acts. \<not> revives c a"
  shows "consumers (run h w acts) c = consumers w c \<and>
         consumers (handleLoad h c text w) = consumers w \<and>
         consumers (handleError h c error w) = consumers w \<and>
         \<not> isActive (consumers (componentWillUnmount c v) c) \<and>
         ((\<forall>a \<in> set comps. isCompletion a) \<longrightarrow>
            agreeExcept c (run h (componentWillUnmount c v) comps) (run h v comps))"
proof -
  have 1: "consumers (run h w acts) c = consumers w c"
    unfolding run_def using assms by (rule foldl_frozen)
  have 2: "consumers (handleLoad h c text w) = consumers w"
    using assms(1) by (rule handleLoad_inactive)
  have 3: "consumers (handleError h c error w) = consumers w"
    using assms(1) by simp
  have 4: "\<not> isActive (consumers (componentWillUnmount c v) c)"
    by (simp add: componentWillUnmount_def)
  have 5: "agreeExcept c (run h (componentWillUnmount c v) comps) (run h v comps)"
    if "\<forall>a \<in> set comps. isCompletion a"
    unfolding run_def using agreeExcept_unmount that by (rule agreeExcept_completions)
  from 1 2 3 4 5 show ?thesis by blast
qed

section \<open>One request per source\<close>

lemma cacheInv_same [simp]:
  "cacheInv (emit e w) = cacheInv w"
  "cacheInv (notifyLoad h c st w) = cacheInv w"
  "cacheInv (setState h c g w) = cacheInv w"
  "cacheInv (handleError h c err w) = cacheInv w"
  "cacheInv (handleLoad h c x w) = cacheInv w"
  "cacheInv (w\<lparr>consumers := cs\<rparr>) = cacheInv w"
  by (simp_all add: cacheInv_def cachedRequests_def)

lemma cacheInv_request:
  assumes "cacheInv w"
    and "cacheRequests (props (consumers w c)) \<longrightarrow> cacheStore w (src (props (consumers w c))) = None"
  shows "cacheInv (request h c w)"
proof -
  let ?p = "props (consumers w c)"
  have fresh: "src ?p \<notin> set (cachedRequests w)" if "cacheRequests ?p"
  proof
    assume "src ?p \<in> set (cachedRequests w)"
    with assms(1) have "cacheStore w (src ?p) \<noteq> None"
      unfolding cacheInv_def by (auto split: option.splits)
    with assms(2) that show False by simp
  qed
  show ?thesis
  proof (cases "fetchThrows h (src ?p)")
    case (Some e)
    with assms(1) show ?thesis
      by (auto simp add: cacheInv_def cachedRequests_def request_fields split: option.splits)
  next
    case None
    with assms(1) fresh show ?thesis
      by (auto simp add: cacheInv_def cachedRequests_def request_fields split: option.splits)
  qed
qed

lemma cacheInv_load: "cacheInv w \<Longrightarrow> cacheInv (load h c w)"
proof (cases "isActive (consumers w c)")
  case False
  assume "cacheInv w"
  with False show ?thesis by (simp add: load_inactive)
next
  case active: True
  assume inv: "cacheInv w"
  let ?p = "props (consumers w c)"
  let ?w1 = "setState h c (\<lambda>s. s\<lparr>content := [], element := None, status := LOADING\<rparr>) w"
  show ?thesis
  proof (cases "cacheRequests ?p \<and> cacheStore w (src ?p) \<noteq> None")
    case True
    then obtain entry where e: "cacheStore w (src ?p) = Some entry" by blast
    from True have "cacheRequests ?p" by simp
    from load_cached [OF active this e, of h] inv show ?thesis
      by (auto simp add: Let_def cacheInv_def cachedRequests_def split: option.splits)
  next
    case False
    then have none: "cacheRequests ?p \<longrightarrow> cacheStore w (src ?p) = None" by simp
    have "cacheInv (request h c ?w1)"
      using inv none by (intro cacheInv_request) simp_all
    with load_fresh [OF active none, of h] inv show ?thesis
      by (cases "inlineSource h (src ?p)") (simp_all add: Let_def)
  qed
qed

lemma cacheInv_remove:
  assumes "cacheInv w" and "i < length (inflight w)"
    and "inflight w' = take i (inflight w) @ drop (Suc i) (inflight w)"
    and "\<And>s. s \<noteq> fetch_src (inflight w ! i) \<or> \<not> fetch_cached (inflight w ! i) \<Longrightarrow>
            cacheStore w' s = cacheStore w s"
  shows "cacheInv w'"
proof -
  let ?f = "inflight w ! i"
  let ?A = "map fetch_src (filter fetch_cached (take i (inflight w)))"
  let ?B = "map fetch_src (filter fetch_cached (drop (Suc i) (inflight w)))"
  have "inflight w = take i (inflight w) @ ?f # drop (Suc i) (inflight w)"
    using assms(2) by (rule id_take_nth_drop)
  then have "cachedRequests w = map fetch_src (filter fetch_cached (take i (inflight w) @ ?f # drop (Suc i) (inflight w)))"
    unfolding cachedRequests_def by simp
  then have old: "cachedRequests w = ?A @ (if fetch_cached ?f then [fetch_src ?f] else []) @ ?B"
    by simp
  have new: "cachedRequests w' = ?A @ ?B"
    by (simp add: cachedRequests_def assms(3))
  have d: "distinct (?A @ ?B)" and sub: "set (?A @ ?B) \<subseteq> set (cachedRequests w)"
    and away: "fetch_cached ?f \<Longrightarrow> fetch_src ?f \<notin> set (?A @ ?B)"
    using assms(1) unfolding cacheInv_def old by (auto split: if_splits)
  have "case cacheStore w' s of None \<Rightarrow> False | Some entry \<Rightarrow> cache_status entry = LOADING"
    if "s \<in> set (?A @ ?B)" for s
  proof -
    have "s \<noteq> fetch_src ?f \<or> \<not> fetch_cached ?f" using that away by blast
    then have "cacheStore w' s = cacheStore w s" by (rule assms(4))
    moreover have "case cacheStore w s of None \<Rightarrow> False | Some entry \<Rightarrow> cache_status entry = LOADING"
      using assms(1) sub that unfolding cacheInv_def by blast
    ultimately show ?thesis by simp
  qed
  with d show ?thesis
    unfolding cacheInv_def new by blast
qed

lemma cacheInv_resolve: "cacheInv w \<Longrightarrow> cacheInv (resolve h i outcome w)"
proof (cases "i < length (inflight w)")
  case False
  assume "cacheInv w"
  with False show ?thesis by (simp add: resolve_def)
next
  case True
  assume inv: "cacheInv w"
  let ?f = "inflight w ! i"
  let ?w0 = "w\<lparr>inflight := take i (inflight w) @ drop (Suc i) (inflight w)\<rparr>"
  show ?thesis
  proof (cases "requestResponse outcome")
    case (Inl e)
    have "cacheInv (requestCatch h ?f e ?w0)"
      using inv True by (rule cacheInv_remove) (auto simp add: requestCatch_fields)
    with True Inl show ?thesis by (simp add: resolve_def Let_def)
  next
    case (Inr x)
    have "cacheInv (requestThen h ?f x ?w0)"
      using inv True by (rule cacheInv_remove) (auto simp add: requestThen_fields split: option.splits)
    with True Inr show ?thesis by (simp add: resolve_def Let_def)
  qed
qed

lemma cacheInv_step: "cacheInv w \<Longrightarrow> cacheInv (step h w a)"
proof (cases a)
  case (Construct c p rnd)
  assume "cacheInv w"
  then show ?thesis using Construct by (simp add: construct_def)
next
  case (Mount c)
  assume r: "cacheInv w"
  let ?w1 = "w\<lparr>consumers := (consumers w)(c := (consumers w c)\<lparr>isActive := True\<rparr>)\<rparr>"
  have "cacheInv ?w1" using r by simp
  from this cacheInv_load [OF this] show ?thesis
    using Mount by (simp add: componentDidMount_def Let_def)
next
  case (SetProps c p)
  assume r: "cacheInv w"
  let ?w1 = "notifyLoad h c (status (state (consumers w c)))
               (w\<lparr>consumers := (consumers w)(c := (consumers w c)\<lparr>props := p\<rparr>)\<rparr>)"
  have "cacheInv ?w1" using r by simp
  from this cacheInv_load [OF this] r show ?thesis
    using SetProps by (simp add: componentDidUpdate_def Let_def)
next
  case (Unmount c)
  assume "cacheInv w"
  then show ?thesis using Unmount by (simp add: componentWillUnmount_def)
next
  case (Resolve i outcome)
  assume "cacheInv w"
  then show ?thesis using Resolve by (simp add: cacheInv_resolve)
qed

lemma cacheInv_foldl: "cacheInv w \<Longrightarrow> cacheInv (foldl (step h) w acts)"
  by (induction acts arbitrary: w) (simp_all add: cacheInv_step)

lemma cacheInv_run: "cacheInv (run h initialWorld acts)"
  unfolding run_def by (rule cacheInv_foldl) (simp add: cacheInv_def cachedRequests_def initialWorld_def)

lemma distinct_at_most_one:
  "distinct (map g ys) \<Longrightarrow> length (filter (\<lambda>y. g y = s) ys) \<le> 1"
proof (induction ys)
  case Nil
  then show ?case by simp
next
  case (Cons y ys)
  show ?case
  proof (cases "g y = s")
    case True
    from Cons.prems have "g y \<notin> g ` set ys" by simp
    with True have "\<forall>x \<in> set ys. g x \<noteq> s" by (metis imageI)
    then have "filter (\<lambda>y. g y = s) ys = []"
      by (simp add: filter_empty_conv)
    with True show ?thesis by simp
  next
    case False
    with Cons show ?thesis by simp
  qed
qed

lemma cacheInv_at_most_one:
  assumes "cacheInv w"
  shows "length (filter (\<lambda>f. fetch_cached f \<and> fetch_src f = s) (inflight w)) \<le> 1"
proof -
  have "filter (\<lambda>f. fetch_cached f \<and> fetch_src f = s) (inflight w) =
          filter (\<lambda>f. fetch_src f = s) (filter fetch_cached (inflight w))"
    by (simp add: conj_commute)
  moreover have "distinct (map fetch_src (filter fetch_cached (inflight w)))"
    using assms by (simp add: cacheInv_def cachedRequests_def)
  ultimately show ?thesis
    using distinct_at_most_one [of fetch_src "filter fetch_cached (inflight w)" s] by simp
qed

lemma loads_queued:
  assumes "\<forall>k \<in> set cs. isActive (consumers w k) \<and> cacheRequests (props (consumers w k)) \<and>
             src (props (consumers w k)) = s"
    and "cacheStore w s = Some e" and "cache_status e = LOADING"
  shows "inflight (loads h cs w) = inflight w \<and>
         fetches (trace (loads h cs w)) = fetches (trace w) \<and>
         cacheStore (loads h cs w) s = Some (e\<lparr>cache_queue := cache_queue e @ cs\<rparr>)"
  using assms
proof (induction cs arbitrary: w e)
  case Nil
  then show ?case by (simp add: loads_def)
next
  case (Cons k cs)
  let ?w1 = "setState h k (\<lambda>s. s\<lparr>content := [], element := None, status := LOADING\<rparr>) w"
  let ?e = "e\<lparr>cache_queue := cache_queue e @ [k]\<rparr>"
  have k: "isActive (consumers w k)" "cacheRequests (props (consumers w k))"
    "src (props (consumers w k)) = s"
    using Cons.prems(1) by simp_all
  have e: "cacheStore w (src (props (consumers w k))) = Some e"
    using k(3) Cons.prems(2) by simp
  have eq: "load h k w = ?w1\<lparr>cacheStore := (cacheStore ?w1)(s \<mapsto> ?e)\<rparr>"
    using load_cached [OF k(1,2) e, of h] Cons.prems(3) k(3) by (simp add: Let_def)
  have rest: "\<forall>j \<in> set cs. isActive (consumers (load h k w) j) \<and>
      cacheRequests (props (consumers (load h k w) j)) \<and> src (props (consumers (load h k w) j)) = s"
    using Cons.prems(1) by simp
  have c: "cacheStore (load h k w) s = Some ?e" and st: "cache_status ?e = LOADING"
    using Cons.prems(3) by (simp_all add: eq)
  from Cons.IH [OF rest c st] show ?case
    by (simp add: loads_def eq)
qed

lemma loads_first:
  assumes "\<forall>k \<in> set (c # cs). isActive (consumers w k) \<and> cacheRequests (props (consumers w k)) \<and>
             src (props (consumers w k)) = s"
    and "cacheStore w s = None" and "inlineSource h s = Inr []" and "fetchThrows h s = None"
  shows "inflight (loads h (c # cs) w) =
           inflight w @ [\<lparr>requester = c, fetch_src = s, fetch_cached = True\<rparr>] \<and>
         fetches (trace (loads h (c # cs) w)) = fetches (trace w) @ [(c, s)] \<and>
         cacheStore (loads h (c # cs) w) s =
           Some \<lparr>cache_content = [], cache_queue = cs, cache_status = LOADING\<rparr>"
proof -
  let ?w1 = "setState h c (\<lambda>s. s\<lparr>content := [], element := None, status := LOADING\<rparr>) w"
  let ?e = "\<lparr>cache_content = [], cache_queue = [], cache_status = LOADING\<rparr>"
  have k: "isActive (consumers w c)" "cacheRequests (props (consumers w c))"
    "src (props (consumers w c)) = s"
    using assms(1) by simp_all
  have none: "cacheRequests (props (consumers w c)) \<longrightarrow> cacheStore w (src (props (consumers w c))) = None"
    using k(3) assms(2) by simp
  have eq: "load h c w = request h c ?w1"
    using load_fresh [OF k(1) none, of h] k(3) assms(3) by (simp add: Let_def)
  have i: "inflight (load h c w) = inflight w @ [\<lparr>requester = c, fetch_src = s, fetch_cached = True\<rparr>]"
    and f: "fetches (trace (load h c w)) = fetches (trace w) @ [(c, s)]"
    and cs: "cacheStore (load h c w) s = Some ?e"
    using k assms(4) by (simp_all add: eq request_fields request_def Let_def)
  have rest: "\<forall>j \<in> set cs. isActive (consumers (load h c w) j) \<and>
      cacheRequests (props (consumers (load h c w) j)) \<and> src (props (consumers (load h c w) j)) = s"
    using assms(1) by simp
  have st: "cache_status ?e = LOADING" by simp
  from loads_queued [OF rest cs st, of h] i f show ?thesis
    by (simp add: loads_def)
qed

lemma load_hit:
  assumes "isActive (consumers v k)" and "cacheRequests (props (consumers v k))"
    and "cacheStore v (src (props (consumers v k))) = Some e"
  shows "inflight (load h k v) = inflight v \<and>
         fetches (trace (load h k v)) = fetches (trace v) \<and>
         (cache_status e = LOADING \<longrightarrow>
            cacheStore (load h k v) (src (props (consumers v k))) =
              Some (e\<lparr>cache_queue := cache_queue e @ [k]\<rparr>) \<and>
            callbacks (trace (load h k v)) = callbacks (trace v)) \<and>
         (cache_status e = LOADED \<longrightarrow>
            cacheStore (load h k v) = cacheStore v \<and>
            callbacks (trace (load h k v)) = callbacks (trace v) @ [(k, cache_content e)])"
  using load_cached [OF assms, of h] by (simp add: Let_def)

lemma resolve_static [simp]:
  "props (consumers (resolve h i outcome w) k) = props (consumers w k)"
  "isActive (consumers (resolve h i outcome w) k) = isActive (consumers w k)"
  "hash (consumers (resolve h i outcome w) k) = hash (consumers w k)"
  by (simp_all add: resolve_def Let_def split: sum.splits)

lemma retryWorld_fields:
  "k \<in> {0, 1, 2} \<Longrightarrow> isActive (consumers retryWorld k)"
  "k \<in> {0, 1, 2} \<Longrightarrow> props (consumers retryWorld k) = testProps sampleURL"
  "cacheStore retryWorld sampleURL = None"
  "inflight retryWorld = []"
  by (simp_all add: retryWorld_def pendingWorld_consumers resolve_def Let_def requestCatch_fields
      pendingWorld_inflight)

text \<open>
  Claim C1. In every world that a run reaches from the initial world, the pending
  requests made with caching enabled are for different sources, so at most one of them
  is for a given source, and each has its \<open>LOADING\<close> entry. When active instances with
  caching enabled and the same remote source call \<open>load\<close> one after the other and the
  cache has no entry for the source, one request is started, by the first instance, which
  creates the \<open>LOADING\<close> entry before any chain can run; the others are appended to the
  queue of the entry in the order of their calls. In general a \<open>load\<close> that finds an
  entry starts no request: it appends its instance to the queue of a \<open>LOADING\<close> entry, and
  is served the content of a \<open>LOADED\<close> entry.
\<close>

theorem single_request_per_source:
  assumes "\<forall>k \<in> set (c # cs). isActive (consumers w k) \<and> cacheRequests (props (consumers w k)) \<and>
             src (props (consumers w k)) = s"
    and "cacheStore w s = None" and "inlineSource h s = Inr []" and "fetchThrows h s = None"
  shows "cacheInv (run h initialWorld acts) \<and>
         length (filter (\<lambda>f. fetch_cached f \<and> fetch_src f = s') (inflight (run h initialWorld acts))) \<le> 1 \<and>
         inflight (loads h (c # cs) w) =
           inflight w @ [\<lparr>requester = c, fetch_src = s, fetch_cached = True\<rparr>] \<and>
         fetches (trace (loads h (c # cs) w)) = fetches (trace w) @ [(c, s)] \<and>
         cacheStore (loads h (c # cs) w) s =
           Some \<lparr>cache_content = [], cache_queue = cs, cache_status = LOADING\<rparr> \<and>
         (\<forall>v k e. isActive (consumers v k) \<and> cacheRequests (props (consumers v k)) \<and>
                  cacheStore v (src (props (consumers v k))) = Some e \<longrightarrow>
            inflight (load h k v) = inflight v \<and>
            fetches (trace (load h k v)) = fetches (trace v) \<and>
            (cache_status e = LOADING \<longrightarrow>
               cacheStore (load h k v) (src (props (consumers v k))) =
                 Some (e\<lparr>cache_queue := cache_queue e @ [k]\<rparr>) \<and>
               callbacks (trace (load h k v)) = callbacks (trace v)) \<and>
            (cache_status e = LOADED \<longrightarrow>
               cacheStore (load h k v) = cacheStore v \<and>
               callbacks (trace (load h k v)) = callbacks (trace v) @ [(k, cache_content e)]))"
proof -
  note inv = cacheInv_run [of h acts]
  note one = cacheInv_at_most_one [OF inv, of s']
  note first = loads_first [OF assms]
  from inv one first load_hit [of _ _ _ h] show ?thesis
    by blast
qed

theorem single_request_per_source_witness:
  "isActive (consumers retryWorld 0) \<and> isActive (consumers retryWorld 1) \<and>
   isActive (consumers retryWorld 2) \<and>
   cacheRequests (props (consumers retryWorld 0)) \<and> cacheRequests (props (consumers retryWorld 1)) \<and>
   cacheRequests (props (consumers retryWorld 2)) \<and>
   src (props (consumers retryWorld 0)) = sampleURL \<and> src (props (consumers retryWorld 1)) = sampleURL \<and>
   src (props (consumers retryWorld 2)) = sampleURL \<and>
   cacheStore retryWorld sampleURL = None \<and>
   inlineSource testHost sampleURL = Inr [] \<and>
   fetchThrows testHost sampleURL = None \<and>
   inflight (loads testHost [0, 1, 2] retryWorld) =
     [\<lparr>requester = 0, fetch_src = sampleURL, fetch_cached = True\<rparr>] \<and>
   cacheStore (loads testHost [0, 1, 2] retryWorld) sampleURL =
     Some \<lparr>cache_content = [], cache_queue = [1, 2], cache_status = LOADING\<rparr>"
proof -
  have a: "\<forall>k \<in> set [0, 1, 2]. isActive (consumers retryWorld k) \<and>
      cacheRequests (props (consumers retryWorld k)) \<and>
      src (props (consumers retryWorld k)) = sampleURL"
    by (simp add: retryWorld_fields testProps_def)
  have b: "cacheStore retryWorld sampleURL = None"
    by (simp add: retryWorld_fields)
  have c: "fetchThrows testHost sampleURL = None"
    by (simp add: testHost_def)
  note t = single_request_per_source [OF a b sampleURL_remote c]
  have r1: "inflight (loads testHost [0, 1, 2] retryWorld) =
      inflight retryWorld @ [\<lparr>requester = 0, fetch_src = sampleURL, fetch_cached = True\<rparr>]"
    using t by blast
  have r2: "cacheStore (loads testHost [0, 1, 2] retryWorld) sampleURL =
      Some \<lparr>cache_content = [], cache_queue = [1, 2], cache_status = LOADING\<rparr>"
    using t by blast
  have p: "isActive (consumers retryWorld 0)" "isActive (consumers retryWorld 1)"
    "isActive (consumers retryWorld 2)"
    "props (consumers retryWorld 0) = testProps sampleURL"
    "props (consumers retryWorld 1) = testProps sampleURL"
    "props (consumers retryWorld 2) = testProps sampleURL"
    by (simp_all add: retryWorld_fields)
  show ?thesis
    using b c r1 r2 by (simp add: p sampleURL_remote retryWorld_fields testProps_def)
qed

theorem teardown_blocks_completions_witness:
  "\<not> isActive (consumers (componentWillUnmount 1 pendingWorld) 1) \<and>
   \<not> revives 1 (Resolve 0 sampleResponse) \<and>
   isCompletion (Resolve 0 sampleResponse) \<and>
   cacheStore pendingWorld sampleURL =
     Some \<lparr>cache_content = [], cache_queue = [1, 2], cache_status = LOADING\<rparr> \<and>
   consumers (run testHost (componentWillUnmount 1 pendingWorld) [Resolve 0 sampleResponse]) 1 =
     consumers (componentWillUnmount 1 pendingWorld) 1 \<and>
   status (state (consumers (run testHost (componentWillUnmount 1 pendingWorld) [Resolve 0 sampleResponse]) 1)) =
     LOADING \<and>
   cacheStore (run testHost (componentWillUnmount 1 pendingWorld) [Resolve 0 sampleResponse]) =
     cacheStore (run testHost pendingWorld [Resolve 0 sampleResponse]) \<and>
   consumers (run testHost (componentWillUnmount 1 pendingWorld) [Resolve 0 sampleResponse]) 2 =
     consumers (run testHost pendingWorld [Resolve 0 sampleResponse]) 2"
proof -
  have a: "\<not> isActive (consumers (componentWillUnmount 1 pendingWorld) 1)"
    by (simp add: componentWillUnmount_def)
  have b: "\<forall>a \<in> set [Resolve 0 sampleResponse]. \<not> revives 1 a"
    by (simp add: sampleResponse_def)
  have c: "\<forall>a \<in> set [Resolve 0 sampleResponse]. isCompletion a"
    by (simp add: sampleResponse_def)
  have s: "status (state (consumers (componentWillUnmount 1 pendingWorld) 1)) = LOADING"
    by code_simp
  note t = teardown_blocks_completions [OF a b, of testHost _ _ pendingWorld "[Resolve 0 sampleResponse]"]
  have r1: "consumers (run testHost (componentWillUnmount 1 pendingWorld) [Resolve 0 sampleResponse]) 1 =
     consumers (componentWillUnmount 1 pendingWorld) 1"
    using t by blast
  have r2: "agreeExcept 1 (run testHost (componentWillUnmount 1 pendingWorld) [Resolve 0 sampleResponse])
     (run testHost pendingWorld [Resolve 0 sampleResponse])"
    using t c by blast
  have r3: "cacheStore (run testHost (componentWillUnmount 1 pendingWorld) [Resolve 0 sampleResponse]) =
     cacheStore (run testHost pendingWorld [Resolve 0 sampleResponse])"
    and r4: "consumers (run testHost (componentWillUnmount 1 pendingWorld) [Resolve 0 sampleResponse]) 2 =
     consumers (run testHost pendingWorld [Resolve 0 sampleResponse]) 2"
    using r2 by (simp_all add: agreeExcept_def)
  have d: "\<not> revives 1 (Resolve 0 sampleResponse)" "isCompletion (Resolve 0 sampleResponse)"
    by (simp_all add: sampleResponse_def)
  show ?thesis
    using a d r1 r3 r4 s by (simp add: pendingWorld_cache)
qed

end
